theory Spec2Isabelle
  imports Main "HOL-Library.Word" "HOL-Library.Signed_Division" "HOL-Library.AList"
begin

section \<open>Run-time faults\<close>

text \<open>
  A Go run-time panic is a value of the model. \<open>InvalidPointer\<close> has no counterpart in
  Go (a pointer never dangles): it is what the model answers when an address outside of
  the heap is read. \<open>StackOverflow\<close> is the fatal error of a recursion without end.
\<close>

datatype panic =
    NilDereference
  | TypeAssertion
  | IndexOutOfRange
  | SliceBoundsOutOfRange
  | DivideByZero
  | InvalidPointer
  | StackOverflow

section \<open>The lexer (package lexer: token.go, lexer.go)\<close>

datatype TokenType =
    ILLEGAL | EOF
  | IDENT | INT_tok | STRING
  | ASSIGN | PLUS | MINUS | BANG | ASTERISK | SLASH | LT | GT | EQ | NOT_EQ
  | COMMA | SEMICOLON | LPAREN | RPAREN | LBRACE | RBRACE
  | FUNCTION | LET | TRUE_tok | FALSE_tok | IF | ELSE | RETURN

record Token =
  Type :: TokenType
  Literal :: string

text \<open>
  A Go string is a sequence of bytes, here a list of 8-bit characters. \<open>position\<close> and
  \<open>readPosition\<close> are Go ints that start at 0 and are only ever incremented; they are
  natural numbers here (an overflow would need \<open>2 ^ 63\<close> calls).
\<close>

record LexerImpl =
  input :: string
  position :: nat
  readPosition :: nat
  ch :: char

text \<open>
  The conversion \<open>string(b)\<close> of a byte \<open>b\<close>: Go converts an integer to the UTF-8
  encoding of the code point of that value, so a byte from \<open>0x80\<close> on becomes two bytes.
\<close>

definition string_of_byte :: "char \<Rightarrow> string" where
  "string_of_byte c =
     (if (of_char c :: nat) < 128 then [c]
      else [char_of (192 + (of_char c :: nat) div 64), char_of (128 + (of_char c :: nat) mod 64)])"

text \<open>The slice expression \<open>s[lo:hi]\<close> of a string, with its bounds check.\<close>

definition slice :: "string \<Rightarrow> nat \<Rightarrow> nat \<Rightarrow> panic + string" where
  "slice s lo hi =
     (if lo \<le> hi \<and> hi \<le> length s then Inr (take (hi - lo) (drop lo s))
      else Inl SliceBoundsOutOfRange)"

definition readChar :: "LexerImpl \<Rightarrow> LexerImpl" where
  "readChar l =
     l\<lparr>ch := (if readPosition l \<ge> length (input l) then CHR 0x00
               else input l ! readPosition l),
       position := readPosition l,
       readPosition := readPosition l + 1\<rparr>"

definition New :: "string \<Rightarrow> LexerImpl" where
  "New s = readChar \<lparr>input = s, position = 0, readPosition = 0, ch = CHR 0x00\<rparr>"

definition peekChar :: "LexerImpl \<Rightarrow> char" where
  "peekChar l =
     (if readPosition l \<ge> length (input l) then CHR 0x00 else input l ! readPosition l)"

definition isLetter :: "char \<Rightarrow> bool" where
  "isLetter c \<longleftrightarrow>
     (of_char (CHR ''a'') \<le> (of_char c :: nat) \<and> (of_char c :: nat) \<le> of_char (CHR ''z''))
     \<or> (of_char (CHR ''A'') \<le> (of_char c :: nat) \<and> (of_char c :: nat) \<le> of_char (CHR ''Z''))
     \<or> c = CHR ''_''"

definition isDigit :: "char \<Rightarrow> bool" where
  "isDigit c \<longleftrightarrow>
     of_char (CHR ''0'') \<le> (of_char c :: nat) \<and> (of_char c :: nat) \<le> of_char (CHR ''9'')"

definition isWhitespace :: "char \<Rightarrow> bool" where
  \<comment> \<open>the loop condition of \<open>skipWhitespace\<close>: space, tab, newline, carriage return\<close>
  "isWhitespace c \<longleftrightarrow> c = CHR '' '' \<or> c = CHR 0x09 \<or> c = CHR 0x0A \<or> c = CHR 0x0D"

function skipWhitespace :: "LexerImpl \<Rightarrow> LexerImpl" where
  "skipWhitespace l = (if isWhitespace (ch l) then skipWhitespace (readChar l) else l)"
  by pat_completeness auto
termination
  by (relation "measure (\<lambda>l. length (input l) - readPosition l
                              + (if isWhitespace (ch l) then 1 else 0))")
     (auto simp: readChar_def isWhitespace_def)

declare skipWhitespace.simps [simp del]

text \<open>The loops of \<open>readIdentifier\<close> and \<open>readNumber\<close>, then the two functions.\<close>

function readLetters :: "LexerImpl \<Rightarrow> LexerImpl" where
  "readLetters l = (if isLetter (ch l) then readLetters (readChar l) else l)"
  by pat_completeness auto
termination
  by (relation "measure (\<lambda>l. length (input l) - readPosition l
                              + (if isLetter (ch l) then 1 else 0))")
     (auto simp: readChar_def isLetter_def)

declare readLetters.simps [simp del]

function readDigits :: "LexerImpl \<Rightarrow> LexerImpl" where
  "readDigits l = (if isDigit (ch l) then readDigits (readChar l) else l)"
  by pat_completeness auto
termination
  by (relation "measure (\<lambda>l. length (input l) - readPosition l
                              + (if isDigit (ch l) then 1 else 0))")
     (auto simp: readChar_def isDigit_def)

declare readDigits.simps [simp del]

definition readIdentifier :: "LexerImpl \<Rightarrow> (panic + string) \<times> LexerImpl" where
  "readIdentifier l =
     (let l' = readLetters l in (slice (input l') (position l) (position l'), l'))"

definition readNumber :: "LexerImpl \<Rightarrow> (panic + string) \<times> LexerImpl" where
  "readNumber l =
     (let l' = readDigits l in (slice (input l') (position l) (position l'), l'))"

definition lookupIdent :: "string \<Rightarrow> TokenType" where
  "lookupIdent ident =
     (if ident = ''fn'' then FUNCTION
      else if ident = ''let'' then LET
      else if ident = ''true'' then TRUE_tok
      else if ident = ''false'' then FALSE_tok
      else if ident = ''if'' then IF
      else if ident = ''else'' then ELSE
      else if ident = ''return'' then RETURN
      else IDENT)"

text \<open>
  \<open>NextToken\<close> returns the token and the lexer as the call leaves it. The branches are
  the cases of the switch, in the source's order; every branch but the two early returns
  ends in the final \<open>readChar\<close>.
\<close>

definition single :: "TokenType \<Rightarrow> LexerImpl \<Rightarrow> panic + Token \<times> LexerImpl" where
  \<comment> \<open>\<open>tok = Token{Type: t, Literal: string(l.ch)}\<close>, then \<open>l.readChar()\<close>\<close>
  "single t l = Inr (\<lparr>Type = t, Literal = string_of_byte (ch l)\<rparr>, readChar l)"

definition NextToken :: "LexerImpl \<Rightarrow> panic + Token \<times> LexerImpl" where
  "NextToken l0 =
     (let l = skipWhitespace l0; c = ch l in
      if c = CHR ''='' then
        (if peekChar l = CHR ''='' then
           (let l1 = readChar l in
            Inr (\<lparr>Type = EQ, Literal = string_of_byte c @ string_of_byte (ch l1)\<rparr>, readChar l1))
         else single ASSIGN l)
      else if c = CHR ''+'' then single PLUS l
      else if c = CHR ''-'' then single MINUS l
      else if c = CHR ''!'' then
        (if peekChar l = CHR ''='' then
           (let l1 = readChar l in
            Inr (\<lparr>Type = NOT_EQ, Literal = string_of_byte c @ string_of_byte (ch l1)\<rparr>, readChar l1))
         else single BANG l)
      else if c = CHR ''/'' then single SLASH l
      else if c = CHR ''*'' then single ASTERISK l
      else if c = CHR ''<'' then single LT l
      else if c = CHR ''>'' then single GT l
      else if c = CHR '';'' then single SEMICOLON l
      else if c = CHR ''('' then single LPAREN l
      else if c = CHR '')'' then single RPAREN l
      else if c = CHR '','' then single COMMA l
      else if c = CHR ''{'' then single LBRACE l
      else if c = CHR ''}'' then single RBRACE l
      else if c = CHR 0x00 then Inr (\<lparr>Type = EOF, Literal = ''''\<rparr>, readChar l)
      else if isLetter c then
        (case readIdentifier l of
           (Inl p, l') \<Rightarrow> Inl p
         | (Inr lit, l') \<Rightarrow> Inr (\<lparr>Type = lookupIdent lit, Literal = lit\<rparr>, l'))
      else if isDigit c then
        (case readNumber l of
           (Inl p, l') \<Rightarrow> Inl p
         | (Inr lit, l') \<Rightarrow> Inr (\<lparr>Type = INT_tok, Literal = lit\<rparr>, l'))
      else single ILLEGAL l)"

text \<open>
  The caller's loop (the one of the lexer's test): \<open>NextToken\<close> is called until it
  returns the end-of-file token. \<open>None\<close> means that the given number of calls did not
  reach it.
\<close>

fun tokens :: "nat \<Rightarrow> LexerImpl \<Rightarrow> (panic + Token list) option" where
  "tokens 0 l = None"
| "tokens (Suc n) l =
     (case NextToken l of
        Inl p \<Rightarrow> Some (Inl p)
      | Inr (t, l') \<Rightarrow>
          if Type t = EOF then Some (Inr [t])
          else (case tokens n l' of
                  None \<Rightarrow> None
                | Some (Inl p) \<Rightarrow> Some (Inl p)
                | Some (Inr ts) \<Rightarrow> Some (Inr (t # ts))))"

definition lexer_inv :: "LexerImpl \<Rightarrow> bool" where
  \<comment> \<open>what \<open>readChar\<close> establishes: the cursor pair and the current character agree\<close>
  "lexer_inv l \<longleftrightarrow>
     readPosition l = position l + 1
     \<and> ch l = (if position l < length (input l) then input l ! position l else CHR 0x00)"

definition no_rule :: "char \<Rightarrow> bool" where
  \<comment> \<open>the character is not skipped and reaches the last \<open>else\<close> of the switch's
      default case\<close>
  "no_rule c \<longleftrightarrow>
     \<not> isWhitespace c \<and> c \<notin> set ''=+-!/*<>;(),{}'' \<and> c \<noteq> CHR 0x00
     \<and> \<not> isLetter c \<and> \<not> isDigit c"

section \<open>The syntax tree that the interpreter walks\<close>

text \<open>
  The interpreter switches over node types of package \<open>ast\<close> (\<open>IntegerLiteral\<close>,
  \<open>PrefixExpression\<close>, \<open>LetStatement\<close>, ...) whose declarations are not among the
  sources; the datatype has one constructor for each case of \<open>Eval\<close>'s type switch, with
  the fields that \<open>Eval\<close> reads. \<open>WhileStatement\<close> is declared in the sources and has no
  case in the switch. \<open>NoNode\<close> is the nil node (a \<open>return\<close> without a value).
  A hash literal's \<open>Pairs\<close> is a Go map; the list gives its pairs in the order in which
  the \<open>range\<close> loop happens to visit them.
\<close>

datatype node =
    Program "node list"
  | ExpressionStatement node
  | IntegerLiteral "64 word"
  | StringLiteral string
  | BooleanLiteral bool
  | PrefixExpression string node
  | InfixExpression node string node
  | BlockStatement "node list"
  | IfExpression node "node list" "node list option"
  | ReturnStatement node
  | LetStatement string node
  | Identifier string
  | FunctionLiteral "string list" "node list"
  | CallExpression node "node list"
  | ArrayLiteral "node list"
  | IndexExpression node node
  | HashLiteral "(node \<times> node) list"
  | WhileStatement node "node list"
  | NoNode

section \<open>Objects, environments and the heap (golemjs/internal/interpreter)\<close>

text \<open>
  Every object of the interpreter is a struct behind a pointer, and the interface value
  \<open>Object\<close> is such a pointer or nil. Pointer identity is observable (\<open>==\<close> on two
  objects, the switch over \<open>NULL\<close>, \<open>TRUE\<close>, \<open>FALSE\<close>), and environments are shared
  and updated in place, so both live in an explicit store: an address is an index into
  the list of the objects (of the environments) allocated so far, and an allocation
  appends.
  The \<open>Pairs\<close> of a \<open>Hash\<close>, a Go map from \<open>HashKey\<close> to \<open>HashPair\<close>, are an association
  list: \<open>map_of\<close> reads the map, \<open>AList.update\<close> is the assignment \<open>pairs[hashed] = ...\<close>,
  which replaces the pair of a key that is there and adds the pair of a new one.
\<close>

type_synonym addr = nat

type_synonym Object = "addr option"

datatype HashKey = HashKey string "64 word"

datatype BuiltinFunction = Builtin_len | Builtin_first | Builtin_last | Builtin_rest
  | Builtin_push | Builtin_puts

datatype object =
    Integer "64 word"
  | String string
  | Boolean bool
  | Null
  | Error string
  | ReturnValue Object
  | Function "string list" "node list" addr
  | Builtin BuiltinFunction
  | Array "Object list"
  | Hash "(HashKey \<times> Object \<times> Object) list"

record Environment =
  store :: "string \<rightharpoonup> Object"
  outer :: "addr option"

record heap =
  objects :: "object list"
  environments :: "Environment list"

type_synonym 'a outcome = "panic + 'a \<times> heap"

text \<open>\<open>None\<close>: the evaluation did not return within the given recursion depth.\<close>

type_synonym 'a result = "('a outcome) option"

fun Type_of :: "object \<Rightarrow> string" where
  "Type_of (Integer v) = ''INTEGER''"
| "Type_of (String s) = ''STRING''"
| "Type_of (Boolean b) = ''BOOLEAN''"
| "Type_of Null = ''NULL''"
| "Type_of (Error m) = ''ERROR''"
| "Type_of (ReturnValue v) = ''RETURN_VALUE''"
| "Type_of (Function ps body env) = ''FUNCTION''"
| "Type_of (Builtin f) = ''BUILTIN''"
| "Type_of (Array xs) = ''ARRAY''"
| "Type_of (Hash m) = ''HASH''"

definition deref :: "heap \<Rightarrow> addr \<Rightarrow> object option" where
  "deref h a = (if a < length (objects h) then Some (objects h ! a) else None)"

definition ObjectType :: "heap \<Rightarrow> Object \<Rightarrow> panic + string" where
  \<comment> \<open>the method call \<open>obj.Type()\<close>; on the nil interface it panics\<close>
  "ObjectType h obj =
     (case obj of
        None \<Rightarrow> Inl NilDereference
      | Some a \<Rightarrow> (case deref h a of None \<Rightarrow> Inl InvalidPointer | Some ob \<Rightarrow> Inr (Type_of ob)))"

definition alloc :: "object \<Rightarrow> heap \<Rightarrow> Object \<times> heap" where
  "alloc ob h = (Some (length (objects h)), h\<lparr>objects := objects h @ [ob]\<rparr>)"

text \<open>The package-level variables \<open>TRUE\<close>, \<open>FALSE\<close>, \<open>NULL\<close> and the registry \<open>builtins\<close>.\<close>

definition TRUE :: addr where "TRUE = 0"
definition FALSE :: addr where "FALSE = 1"
definition NULL :: addr where "NULL = 2"

definition builtins :: "string \<rightharpoonup> addr" where
  "builtins = [''len'' \<mapsto> 3, ''first'' \<mapsto> 4, ''last'' \<mapsto> 5, ''rest'' \<mapsto> 6,
               ''push'' \<mapsto> 7, ''puts'' \<mapsto> 8]"

definition package_objects :: "object list" where
  "package_objects =
     [Boolean True, Boolean False, Null,
      Builtin Builtin_len, Builtin Builtin_first, Builtin Builtin_last,
      Builtin Builtin_rest, Builtin Builtin_push, Builtin Builtin_puts]"

definition NewEnvironment :: "addr option \<Rightarrow> heap \<Rightarrow> addr \<times> heap" where
  "NewEnvironment out h =
     (length (environments h),
      h\<lparr>environments := environments h @ [\<lparr>store = Map.empty, outer = out\<rparr>]\<rparr>)"

text \<open>
  \<open>Get\<close> walks the chain of \<open>outer\<close> links. It answers \<open>None\<close> where the Go method would
  not return (a cyclic chain) and for an address that is no environment.
\<close>

partial_function (option) Get :: "heap \<Rightarrow> addr \<Rightarrow> string \<Rightarrow> (Object \<times> bool) option" where
  "Get h e name =
     (if e < length (environments h) then
        (case store (environments h ! e) name of
           Some obj \<Rightarrow> Some (obj, True)
         | None \<Rightarrow>
             (case outer (environments h ! e) of
                Some out \<Rightarrow> Get h out name
              | None \<Rightarrow> Some (None, False)))
      else None)"

definition Set :: "addr \<Rightarrow> string \<Rightarrow> Object \<Rightarrow> heap \<Rightarrow> Object outcome" where
  "Set e name val h =
     (if e < length (environments h) then
        Inr (val, h\<lparr>environments := (environments h)
                      [e := (environments h ! e)\<lparr>store := (store (environments h ! e))(name \<mapsto> val)\<rparr>]\<rparr>)
      else Inl InvalidPointer)"

text \<open>\<open>New\<close>: a fresh interpreter, its environment at address 0.\<close>

definition New_Interpreter :: "addr \<times> heap" where
  "New_Interpreter = NewEnvironment None \<lparr>objects = package_objects, environments = []\<rparr>"

subsection \<open>Helpers\<close>

definition nativeBoolToBooleanObject :: "bool \<Rightarrow> Object" where
  "nativeBoolToBooleanObject b = (if b then Some TRUE else Some FALSE)"

definition isTruthy :: "Object \<Rightarrow> bool" where
  "isTruthy obj =
     (if obj = Some NULL then False
      else if obj = Some TRUE then True
      else if obj = Some FALSE then False
      else True)"

definition isError :: "heap \<Rightarrow> Object \<Rightarrow> bool" where
  "isError h obj = (obj \<noteq> None \<and> ObjectType h obj = Inr ''ERROR'')"

definition newError :: "string \<Rightarrow> heap \<Rightarrow> Object \<times> heap" where
  "newError msg h = alloc (Error msg) h"

text \<open>
  \<open>fmt.Sprintf(format)\<close> without operands, as \<open>newError\<close> calls it from
  \<open>evalIdentifier\<close>, where the name is part of the format. A format without \<open>%\<close> is
  written as it is. After a \<open>%\<close> the library writes a note on the missing operand
  (\<open>%!d(MISSING)\<close>, \<open>%!(NOVERB)\<close>, ...) by the rules of package \<open>fmt\<close>, which are not
  translated: for such a format the text is left open.
\<close>

definition Sprintf_no_operands :: "string \<Rightarrow> string" where
  "Sprintf_no_operands format =
     (if CHR ''%'' \<in> set format then undefined format else format)"

text \<open>The verb \<open>%d\<close> of \<open>Sprintf\<close> on a length.\<close>

fun string_of_nat :: "nat \<Rightarrow> string" where
  "string_of_nat n =
     (if n < 10 then [char_of (48 + n)]
      else string_of_nat (n div 10) @ [char_of (48 + n mod 10)])"

declare string_of_nat.simps [simp del]

text \<open>Sequencing of two steps: a panic or a missing result of the first ends both.\<close>

definition andThen :: "'a result \<Rightarrow> ('a \<Rightarrow> heap \<Rightarrow> 'b result) \<Rightarrow> 'b result" where
  "andThen m f =
     (case m of
        None \<Rightarrow> None
      | Some (Inl p) \<Rightarrow> Some (Inl p)
      | Some (Inr (v, h)) \<Rightarrow> f v h)"

definition withType :: "heap \<Rightarrow> Object \<Rightarrow> (string \<Rightarrow> 'a outcome) \<Rightarrow> 'a outcome" where
  \<comment> \<open>call \<open>obj.Type()\<close>, go on with the answer\<close>
  "withType h obj f = (case ObjectType h obj of Inl p \<Rightarrow> Inl p | Inr t \<Rightarrow> f t)"

subsection \<open>Operators\<close>

text \<open>
  \<open>evalBangOperatorExpression\<close> and \<open>evalMinusPrefixOperatorExpression\<close> are called by
  the golemjs interpreter and declared in internal/interpreter/interpreter.go.
\<close>

definition evalBangOperatorExpression :: "Object \<Rightarrow> Object" where
  "evalBangOperatorExpression right =
     (if right = Some TRUE then Some FALSE
      else if right = Some FALSE then Some TRUE
      else if right = Some NULL then Some TRUE
      else Some FALSE)"

definition evalMinusPrefixOperatorExpression :: "Object \<Rightarrow> heap \<Rightarrow> Object outcome" where
  "evalMinusPrefixOperatorExpression right h =
     withType h right (\<lambda>t.
       if t \<noteq> ''INTEGER'' then Inr (newError (''unknown operator: -'' @ t) h)
       else (case right of
               None \<Rightarrow> Inl TypeAssertion
             | Some a \<Rightarrow>
                 (case deref h a of
                    Some (Integer v) \<Rightarrow> Inr (alloc (Integer (- v)) h)
                  | _ \<Rightarrow> Inl TypeAssertion)))"

definition evalPrefixExpression :: "string \<Rightarrow> Object \<Rightarrow> heap \<Rightarrow> Object outcome" where
  "evalPrefixExpression operator right h =
     (if operator = ''!'' then Inr (evalBangOperatorExpression right, h)
      else if operator = ''-'' then evalMinusPrefixOperatorExpression right h
      else withType h right (\<lambda>t. Inr (newError (''unknown operator: '' @ operator @ t) h)))"

text \<open>
  \<open>int64\<close> arithmetic wraps around; \<open>/\<close> truncates towards zero and panics on a zero
  divisor.
\<close>

definition int64_div :: "64 word \<Rightarrow> 64 word \<Rightarrow> 64 word" where
  "int64_div a b = word_of_int (sint a sdiv sint b)"

definition evalIntegerInfixExpression ::
  "string \<Rightarrow> Object \<Rightarrow> Object \<Rightarrow> heap \<Rightarrow> Object outcome" where
  "evalIntegerInfixExpression operator left right h =
     (case (case left of None \<Rightarrow> None | Some a \<Rightarrow> deref h a,
            case right of None \<Rightarrow> None | Some a \<Rightarrow> deref h a) of
        (Some (Integer leftVal), Some (Integer rightVal)) \<Rightarrow>
          if operator = ''+'' then Inr (alloc (Integer (leftVal + rightVal)) h)
          else if operator = ''-'' then Inr (alloc (Integer (leftVal - rightVal)) h)
          else if operator = ''*'' then Inr (alloc (Integer (leftVal * rightVal)) h)
          else if operator = ''/'' then
            (if rightVal = 0 then Inl DivideByZero
             else Inr (alloc (Integer (int64_div leftVal rightVal)) h))
          else if operator = ''<'' then Inr (nativeBoolToBooleanObject (leftVal <s rightVal), h)
          else if operator = ''>'' then Inr (nativeBoolToBooleanObject (rightVal <s leftVal), h)
          else if operator = ''=='' then Inr (nativeBoolToBooleanObject (leftVal = rightVal), h)
          else if operator = ''!='' then Inr (nativeBoolToBooleanObject (leftVal \<noteq> rightVal), h)
          else withType h left (\<lambda>lt. withType h right (\<lambda>rt.
                 Inr (newError (''unknown operator: '' @ lt @ '' '' @ operator @ '' '' @ rt) h)))
      | _ \<Rightarrow> Inl TypeAssertion)"

definition evalStringInfixExpression :: "Object \<Rightarrow> Object \<Rightarrow> heap \<Rightarrow> Object outcome" where
  "evalStringInfixExpression left right h =
     withType h left (\<lambda>lt.
       if lt \<noteq> ''STRING'' then
         withType h right (\<lambda>rt. Inr (newError (''type mismatch: '' @ lt @ '' + '' @ rt) h))
       else
         withType h right (\<lambda>rt.
           if rt \<noteq> ''STRING'' then Inr (newError (''type mismatch: '' @ lt @ '' + '' @ rt) h)
           else (case (case left of None \<Rightarrow> None | Some a \<Rightarrow> deref h a,
                       case right of None \<Rightarrow> None | Some a \<Rightarrow> deref h a) of
                   (Some (String leftVal), Some (String rightVal)) \<Rightarrow>
                     Inr (alloc (String (leftVal @ rightVal)) h)
                 | _ \<Rightarrow> Inl TypeAssertion)))"

definition evalInfixExpression ::
  "string \<Rightarrow> Object \<Rightarrow> Object \<Rightarrow> heap \<Rightarrow> Object outcome" where
  "evalInfixExpression operator left right h =
     withType h left (\<lambda>lt.
       case (if lt = ''INTEGER'' then withType h right (\<lambda>rt. Inr (rt = ''INTEGER'', h))
             else Inr (False, h)) of
         Inl p \<Rightarrow> Inl p
       | Inr (True, _) \<Rightarrow> evalIntegerInfixExpression operator left right h
       | Inr (False, _) \<Rightarrow>
           if operator = ''+'' then evalStringInfixExpression left right h
           else if operator = ''=='' then Inr (nativeBoolToBooleanObject (left = right), h)
           else if operator = ''!='' then Inr (nativeBoolToBooleanObject (left \<noteq> right), h)
           else withType h right (\<lambda>rt.
                  if lt \<noteq> rt then
                    Inr (newError (''type mismatch: '' @ lt @ '' '' @ operator @ '' '' @ rt) h)
                  else
                    Inr (newError (''unknown operator: '' @ lt @ '' '' @ operator @ '' '' @ rt) h)))"

subsection \<open>Index expressions\<close>

text \<open>
  \<open>max\<close> is \<open>int64(len(arrayObject.Elements) - 1)\<close>: the length of a Go slice fits an
  \<open>int64\<close>, so the comparison is the one of the integers.
\<close>

definition evalArrayIndexExpression :: "Object \<Rightarrow> Object \<Rightarrow> heap \<Rightarrow> Object outcome" where
  "evalArrayIndexExpression array index h =
     (case (case array of None \<Rightarrow> None | Some a \<Rightarrow> deref h a) of
        Some (Array elements) \<Rightarrow>
          (case (case index of None \<Rightarrow> None | Some a \<Rightarrow> deref h a) of
             Some (Integer idx) \<Rightarrow>
               if sint idx < 0 \<or> sint idx > int (length elements) - 1 then Inr (Some NULL, h)
               else Inr (elements ! nat (sint idx), h)
           | _ \<Rightarrow> Inl TypeAssertion)
      | _ \<Rightarrow> Inl TypeAssertion)"

text \<open>
  Modelled from the spec: the \<open>HashKey\<close> methods, which make an object \<open>Hashable\<close>, are
  not among the sources. The interpreter takes them as the parameter \<open>hk\<close>: \<open>hk ob\<close> is
  the hash key of the object \<open>ob\<close>, and \<open>None\<close> where the type assertion
  \<open>ob.(Hashable)\<close> fails. The spec: "HashKey is derived only from Hashable variants
  (Integer, String, Boolean)".
\<close>

definition Hashable :: "(object \<Rightarrow> HashKey option) \<Rightarrow> bool" where
  "Hashable hk \<longleftrightarrow>
     (\<forall>ob. hk ob \<noteq> None \<longleftrightarrow> Type_of ob \<in> {''INTEGER'', ''STRING'', ''BOOLEAN''})"

definition asHashable :: "(object \<Rightarrow> HashKey option) \<Rightarrow> heap \<Rightarrow> Object \<Rightarrow> HashKey option" where
  \<comment> \<open>\<open>key, ok := obj.(Hashable)\<close> followed by \<open>key.HashKey()\<close>; nil is not Hashable\<close>
  "asHashable hk h obj =
     (case obj of None \<Rightarrow> None
      | Some a \<Rightarrow> (case deref h a of None \<Rightarrow> None | Some ob \<Rightarrow> hk ob))"

definition evalHashIndexExpression ::
  "(object \<Rightarrow> HashKey option) \<Rightarrow> Object \<Rightarrow> Object \<Rightarrow> heap \<Rightarrow> Object outcome" where
  "evalHashIndexExpression hk hash index h =
     (case (case hash of None \<Rightarrow> None | Some a \<Rightarrow> deref h a) of
        Some (Hash pairs) \<Rightarrow>
          (case asHashable hk h index of
             None \<Rightarrow> withType h index (\<lambda>t. Inr (newError (''unusable as hash key: '' @ t) h))
           | Some key \<Rightarrow>
               (case map_of pairs key of
                  None \<Rightarrow> Inr (Some NULL, h)
                | Some (k, v) \<Rightarrow> Inr (v, h)))
      | _ \<Rightarrow> Inl TypeAssertion)"

definition evalIndexExpression ::
  "(object \<Rightarrow> HashKey option) \<Rightarrow> Object \<Rightarrow> Object \<Rightarrow> heap \<Rightarrow> Object outcome" where
  "evalIndexExpression hk left index h =
     withType h left (\<lambda>lt.
       if lt = ''ARRAY'' then evalArrayIndexExpression left index h
       else if lt = ''HASH'' then evalHashIndexExpression hk left index h
       else Inr (newError (''index operator not supported: '' @ lt) h))"

subsection \<open>The built-in functions\<close>

definition wrongNumberOfArguments :: "nat \<Rightarrow> nat \<Rightarrow> heap \<Rightarrow> Object outcome" where
  "wrongNumberOfArguments got want h =
     Inr (newError (''wrong number of arguments. got='' @ string_of_nat got
                    @ '', want='' @ string_of_nat want) h)"

definition argArray ::
  "string \<Rightarrow> Object list \<Rightarrow> heap \<Rightarrow> (Object list \<Rightarrow> Object outcome) \<Rightarrow> Object outcome" where
  \<comment> \<open>the check \<open>args[0].Type() != ARRAY_OBJ\<close> of \<open>first\<close>, \<open>last\<close>, \<open>rest\<close>, \<open>push\<close>,
      then \<open>arr := args[0].(*Array)\<close>\<close>
  "argArray name args h f =
     withType h (hd args) (\<lambda>t.
       if t \<noteq> ''ARRAY'' then
         Inr (newError (''argument to `'' @ name @ ''` must be ARRAY, got '' @ t) h)
       else (case (case hd args of None \<Rightarrow> None | Some a \<Rightarrow> deref h a) of
               Some (Array elements) \<Rightarrow> f elements
             | _ \<Rightarrow> Inl TypeAssertion))"

text \<open>
  \<open>puts\<close> prints \<open>arg.Inspect()\<close> for each argument. The printed text is not part of the
  model; whether the call returns is. \<open>Inspect_fault\<close> is \<open>None\<close> where \<open>obj.Inspect()\<close>
  returns, and the panic otherwise: the call on nil panics, a \<open>ReturnValue\<close> calls
  \<open>Inspect\<close> on its value, an \<open>Array\<close> on its elements in order, a \<open>Hash\<close> on the key and
  the value of each pair (the source reads \<open>pair.Value.Value.Inspect()\<close>, and \<open>Value\<close> is
  no field of an \<open>Object\<close>: it is taken as \<open>pair.Value.Inspect()\<close>; the pairs are visited
  in the order of the list). A \<open>Function\<close> writes its parameters and its body with the
  \<open>String\<close> methods of the syntax tree, which are taken to return. The first argument
  bounds the depth of the calls; \<open>puts\<close> gives it one more than the number of objects,
  which only a chain of objects that comes back to itself exceeds, where the Go calls
  never end.
\<close>

fun first_fault :: "panic option list \<Rightarrow> panic option" where
  "first_fault [] = None"
| "first_fault (None # fs) = first_fault fs"
| "first_fault (Some p # fs) = Some p"

primrec Inspect_fault :: "nat \<Rightarrow> heap \<Rightarrow> Object \<Rightarrow> panic option" where
  "Inspect_fault 0 h obj = Some StackOverflow"
| "Inspect_fault (Suc n) h obj =
     (case obj of
        None \<Rightarrow> Some NilDereference
      | Some a \<Rightarrow>
          (case deref h a of
             None \<Rightarrow> Some InvalidPointer
           | Some (ReturnValue v) \<Rightarrow> Inspect_fault n h v
           | Some (Array elements) \<Rightarrow> first_fault (map (Inspect_fault n h) elements)
           | Some (Hash pairs) \<Rightarrow>
               first_fault (concat (map (\<lambda>(hashed, key, val).
                                           [Inspect_fault n h key, Inspect_fault n h val]) pairs))
           | _ \<Rightarrow> None))"

fun puts_loop :: "Object list \<Rightarrow> heap \<Rightarrow> Object outcome" where
  "puts_loop [] h = Inr (Some NULL, h)"
| "puts_loop (arg # args) h =
     (case Inspect_fault (Suc (length (objects h))) h arg of
        Some p \<Rightarrow> Inl p
      | None \<Rightarrow> puts_loop args h)"

definition applyBuiltin :: "BuiltinFunction \<Rightarrow> Object list \<Rightarrow> heap \<Rightarrow> Object outcome" where
  "applyBuiltin f args h =
     (case f of
        Builtin_len \<Rightarrow>
          if length args \<noteq> 1 then wrongNumberOfArguments (length args) 1 h
          else (case (case hd args of None \<Rightarrow> None | Some a \<Rightarrow> deref h a) of
                  Some (Array elements) \<Rightarrow> Inr (alloc (Integer (of_nat (length elements))) h)
                | Some (String v) \<Rightarrow> Inr (alloc (Integer (of_nat (length v))) h)
                | _ \<Rightarrow> withType h (hd args) (\<lambda>t.
                         Inr (newError (''argument to `len` not supported, got '' @ t) h)))
      | Builtin_first \<Rightarrow>
          if length args \<noteq> 1 then wrongNumberOfArguments (length args) 1 h
          else argArray ''first'' args h (\<lambda>elements.
                 if length elements > 0 then Inr (elements ! 0, h) else Inr (Some NULL, h))
      | Builtin_last \<Rightarrow>
          if length args \<noteq> 1 then wrongNumberOfArguments (length args) 1 h
          else argArray ''last'' args h (\<lambda>elements.
                 if length elements > 0 then Inr (elements ! (length elements - 1), h)
                 else Inr (Some NULL, h))
      | Builtin_rest \<Rightarrow>
          if length args \<noteq> 1 then wrongNumberOfArguments (length args) 1 h
          else argArray ''rest'' args h (\<lambda>elements.
                 if length elements > 0 then Inr (alloc (Array (tl elements)) h)
                 else Inr (Some NULL, h))
      | Builtin_push \<Rightarrow>
          if length args \<noteq> 2 then wrongNumberOfArguments (length args) 2 h
          else argArray ''push'' args h (\<lambda>elements.
                 Inr (alloc (Array (elements @ [args ! 1])) h))
      | Builtin_puts \<Rightarrow> puts_loop args h)"

subsection \<open>Statements, calls and \<open>Eval\<close>\<close>

text \<open>
  The loops and \<open>applyFunction\<close> call back into \<open>i.Eval\<close>; they take it as their first
  argument \<open>ev\<close>. The loop variable \<open>result\<close> is an argument, nil at the start.
\<close>

type_synonym evaluator = "node \<Rightarrow> heap \<Rightarrow> Object result"

fun evalProgram :: "evaluator \<Rightarrow> node list \<Rightarrow> Object \<Rightarrow> heap \<Rightarrow> Object result" where
  "evalProgram ev [] result h = Some (Inr (result, h))"
| "evalProgram ev (statement # statements) result h =
     andThen (ev statement h) (\<lambda>result h.
       case (case result of None \<Rightarrow> None | Some a \<Rightarrow> deref h a) of
         Some (ReturnValue v) \<Rightarrow> Some (Inr (v, h))
       | Some (Error m) \<Rightarrow> Some (Inr (result, h))
       | _ \<Rightarrow> evalProgram ev statements result h)"

fun evalBlockStatement :: "evaluator \<Rightarrow> node list \<Rightarrow> Object \<Rightarrow> heap \<Rightarrow> Object result" where
  "evalBlockStatement ev [] result h = Some (Inr (result, h))"
| "evalBlockStatement ev (statement # statements) result h =
     andThen (ev statement h) (\<lambda>result h.
       if result \<noteq> None then
         (case ObjectType h result of
            Inl p \<Rightarrow> Some (Inl p)
          | Inr rt \<Rightarrow>
              if rt = ''RETURN_VALUE'' \<or> rt = ''ERROR'' then Some (Inr (result, h))
              else evalBlockStatement ev statements result h)
       else evalBlockStatement ev statements result h)"

definition evalIfExpression ::
  "evaluator \<Rightarrow> node \<Rightarrow> node list \<Rightarrow> node list option \<Rightarrow> heap \<Rightarrow> Object result" where
  "evalIfExpression ev cond consequence alternative h =
     andThen (ev cond h) (\<lambda>condition h.
       if isError h condition then Some (Inr (condition, h))
       else if isTruthy condition then ev (BlockStatement consequence) h
       else (case alternative of
               Some alt \<Rightarrow> ev (BlockStatement alt) h
             | None \<Rightarrow> Some (Inr (Some NULL, h))))"

fun evalExpressions ::
  "evaluator \<Rightarrow> node list \<Rightarrow> Object list \<Rightarrow> heap \<Rightarrow> (Object list) result" where
  "evalExpressions ev [] result h = Some (Inr (result, h))"
| "evalExpressions ev (e # exps) result h =
     andThen (ev e h) (\<lambda>evaluated h.
       if isError h evaluated then Some (Inr ([evaluated], h))
       else evalExpressions ev exps (result @ [evaluated]) h)"

fun extendFunctionEnv_loop ::
  "addr \<Rightarrow> string list \<Rightarrow> nat \<Rightarrow> Object list \<Rightarrow> heap \<Rightarrow> panic + heap" where
  "extendFunctionEnv_loop env [] paramIdx args h = Inr h"
| "extendFunctionEnv_loop env (param # params) paramIdx args h =
     (if paramIdx < length args then
        (case Set env param (args ! paramIdx) h of
           Inl p \<Rightarrow> Inl p
         | Inr (_, h') \<Rightarrow> extendFunctionEnv_loop env params (paramIdx + 1) args h')
      else Inl IndexOutOfRange)"

definition extendFunctionEnv ::
  "string list \<Rightarrow> addr \<Rightarrow> Object list \<Rightarrow> heap \<Rightarrow> addr outcome" where
  "extendFunctionEnv parameters fnEnv args h =
     (case NewEnvironment (Some fnEnv) h of
        (env, h') \<Rightarrow>
          (case extendFunctionEnv_loop env parameters 0 args h' of
             Inl p \<Rightarrow> Inl p
           | Inr h'' \<Rightarrow> Inr (env, h'')))"

definition unwrapReturnValue :: "heap \<Rightarrow> Object \<Rightarrow> Object" where
  "unwrapReturnValue h obj =
     (case (case obj of None \<Rightarrow> None | Some a \<Rightarrow> deref h a) of
        Some (ReturnValue v) \<Rightarrow> v
      | _ \<Rightarrow> obj)"

text \<open>
  \<open>applyFunction\<close> of the golemjs interpreter: the extended environment is built and
  then not used, the body is evaluated by \<open>i.Eval\<close>, that is in the environment of the
  interpreter \<open>i\<close>.
\<close>

definition applyFunction ::
  "evaluator \<Rightarrow> Object \<Rightarrow> Object list \<Rightarrow> heap \<Rightarrow> Object result" where
  "applyFunction ev fn args h =
     (case (case fn of None \<Rightarrow> None | Some a \<Rightarrow> deref h a) of
        Some (Function parameters body fnEnv) \<Rightarrow>
          (case extendFunctionEnv parameters fnEnv args h of
             Inl p \<Rightarrow> Some (Inl p)
           | Inr (extendedEnv, h') \<Rightarrow>
               andThen (ev (BlockStatement body) h') (\<lambda>evaluated h.
                 Some (Inr (unwrapReturnValue h evaluated, h))))
      | Some (Builtin f) \<Rightarrow> Some (applyBuiltin f args h)
      | _ \<Rightarrow> Some (withType h fn (\<lambda>t. Inr (newError (''not a function: '' @ t) h))))"

fun evalHashLiteral ::
  "(object \<Rightarrow> HashKey option) \<Rightarrow> evaluator \<Rightarrow> (node \<times> node) list
     \<Rightarrow> (HashKey \<times> Object \<times> Object) list \<Rightarrow> heap \<Rightarrow> Object result" where
  "evalHashLiteral hk ev [] pairs h = Some (Inr (alloc (Hash pairs) h))"
| "evalHashLiteral hk ev ((keyNode, valueNode) # rest) pairs h =
     andThen (ev keyNode h) (\<lambda>key h.
       if isError h key then Some (Inr (key, h))
       else (case asHashable hk h key of
               None \<Rightarrow> Some (withType h key (\<lambda>t.
                          Inr (newError (''unusable as hash key: '' @ t) h)))
             | Some hashed \<Rightarrow>
                 andThen (ev valueNode h) (\<lambda>val h.
                   if isError h val then Some (Inr (val, h))
                   else evalHashLiteral hk ev rest (AList.update hashed (key, val) pairs) h)))"

text \<open>
  \<open>newError("identifier not found: " + node.Value)\<close>: the name is part of the format
  that \<open>Sprintf\<close> gets, and there is no operand.
\<close>

definition evalIdentifier :: "addr \<Rightarrow> string \<Rightarrow> heap \<Rightarrow> Object result" where
  "evalIdentifier env name h =
     (case Get h env name of
        None \<Rightarrow> None
      | Some (val, True) \<Rightarrow> Some (Inr (val, h))
      | Some (val, False) \<Rightarrow>
          (case builtins name of
             Some builtin \<Rightarrow> Some (Inr (Some builtin, h))
           | None \<Rightarrow>
               Some (Inr (newError (Sprintf_no_operands (''identifier not found: '' @ name)) h))))"

text \<open>
  \<open>Eval\<close> of the interpreter whose environment is at \<open>env\<close>. The first argument is the
  \<open>HashKey\<close> parameter, the second bounds the depth of the recursion.
\<close>

primrec Eval ::
  "(object \<Rightarrow> HashKey option) \<Rightarrow> nat \<Rightarrow> addr \<Rightarrow> node \<Rightarrow> heap \<Rightarrow> Object result" where
  "Eval hk 0 env node h = None"
| "Eval hk (Suc n) env node h =
     (case node of
        Program statements \<Rightarrow> evalProgram (Eval hk n env) statements None h
      | ExpressionStatement expression \<Rightarrow> Eval hk n env expression h
      | IntegerLiteral v \<Rightarrow> Some (Inr (alloc (Integer v) h))
      | StringLiteral v \<Rightarrow> Some (Inr (alloc (String v) h))
      | BooleanLiteral v \<Rightarrow> Some (Inr (nativeBoolToBooleanObject v, h))
      | PrefixExpression operator right \<Rightarrow>
          andThen (Eval hk n env right h) (\<lambda>right h.
            if isError h right then Some (Inr (right, h))
            else Some (evalPrefixExpression operator right h))
      | InfixExpression left operator right \<Rightarrow>
          andThen (Eval hk n env left h) (\<lambda>left h.
            if isError h left then Some (Inr (left, h))
            else andThen (Eval hk n env right h) (\<lambda>right h.
              if isError h right then Some (Inr (right, h))
              else Some (evalInfixExpression operator left right h)))
      | BlockStatement statements \<Rightarrow> evalBlockStatement (Eval hk n env) statements None h
      | IfExpression cond consequence alternative \<Rightarrow>
          evalIfExpression (Eval hk n env) cond consequence alternative h
      | ReturnStatement returnValue \<Rightarrow>
          andThen (Eval hk n env returnValue h) (\<lambda>val h.
            if isError h val then Some (Inr (val, h))
            else Some (Inr (alloc (ReturnValue val) h)))
      | LetStatement name v \<Rightarrow>
          andThen (Eval hk n env v h) (\<lambda>val h.
            if isError h val then Some (Inr (val, h))
            else (case Set env name val h of
                    Inl p \<Rightarrow> Some (Inl p)
                  | Inr (_, h') \<Rightarrow> Some (Inr (None, h'))))
      | Identifier name \<Rightarrow> evalIdentifier env name h
      | FunctionLiteral parameters body \<Rightarrow> Some (Inr (alloc (Function parameters body env) h))
      | CallExpression function arguments \<Rightarrow>
          andThen (Eval hk n env function h) (\<lambda>function h.
            if isError h function then Some (Inr (function, h))
            else andThen (evalExpressions (Eval hk n env) arguments [] h) (\<lambda>args h.
              if length args = 1 \<and> isError h (args ! 0) then Some (Inr (args ! 0, h))
              else applyFunction (Eval hk n env) function args h))
      | ArrayLiteral elems \<Rightarrow>
          andThen (evalExpressions (Eval hk n env) elems [] h) (\<lambda>elements h.
            if length elements = 1 \<and> isError h (elements ! 0) then Some (Inr (elements ! 0, h))
            else Some (Inr (alloc (Array elements) h)))
      | IndexExpression left index \<Rightarrow>
          andThen (Eval hk n env left h) (\<lambda>left h.
            if isError h left then Some (Inr (left, h))
            else andThen (Eval hk n env index h) (\<lambda>index h.
              if isError h index then Some (Inr (index, h))
              else Some (evalIndexExpression hk left index h)))
      | HashLiteral pairs \<Rightarrow> evalHashLiteral hk (Eval hk n env) pairs [] h
      | WhileStatement cond body \<Rightarrow> Some (Inr (None, h))
      | NoNode \<Rightarrow> Some (Inr (None, h)))"

text \<open>The object that a result points to, read in the heap that the evaluation left.\<close>

definition result_object :: "Object result \<Rightarrow> (panic + object option) option" where
  "result_object r =
     (case r of
        None \<Rightarrow> None
      | Some (Inl p) \<Rightarrow> Some (Inl p)
      | Some (Inr (obj, h)) \<Rightarrow>
          Some (Inr (case obj of None \<Rightarrow> None | Some a \<Rightarrow> deref h a)))"

section \<open>The first interpreter (internal/interpreter/interpreter.go)\<close>

text \<open>
  The repository holds a second, smaller interpreter with the same object model and no
  strings, arrays, hashes or registry of built-ins. Its \<open>evalProgram\<close>,
  \<open>evalBlockStatement\<close>, \<open>evalPrefixExpression\<close>, \<open>evalIntegerInfixExpression\<close>,
  \<open>evalIfExpression\<close>, \<open>evalExpressions\<close>, \<open>extendFunctionEnv\<close>, \<open>unwrapReturnValue\<close>
  and helpers are, statement for statement, the ones above (\<open>NewEnclosedEnvironment\<close>
  is \<open>NewEnvironment\<close> with the outer link). What differs is modelled here: \<open>Eval\<close>
  (a let statement returns the value; the node types of the richer interpreter have no
  case), \<open>evalInfixExpression\<close> (no case for \<open>+\<close> outside the integers),
  \<open>evalIdentifier\<close> (no registry) and \<open>applyFunction\<close>, which evaluates the body with a
  new interpreter on the extended environment. No \<open>Builtin\<close> object is ever made by this
  interpreter.
\<close>

definition internal_New :: "addr \<times> heap" where
  "internal_New = NewEnvironment None \<lparr>objects = [Boolean True, Boolean False, Null],
                                        environments = []\<rparr>"

definition internal_evalInfixExpression ::
  "string \<Rightarrow> Object \<Rightarrow> Object \<Rightarrow> heap \<Rightarrow> Object outcome" where
  "internal_evalInfixExpression operator left right h =
     withType h left (\<lambda>lt.
       case (if lt = ''INTEGER'' then withType h right (\<lambda>rt. Inr (rt = ''INTEGER'', h))
             else Inr (False, h)) of
         Inl p \<Rightarrow> Inl p
       | Inr (True, _) \<Rightarrow> evalIntegerInfixExpression operator left right h
       | Inr (False, _) \<Rightarrow>
           if operator = ''=='' then Inr (nativeBoolToBooleanObject (left = right), h)
           else if operator = ''!='' then Inr (nativeBoolToBooleanObject (left \<noteq> right), h)
           else withType h right (\<lambda>rt.
                  if lt \<noteq> rt then
                    Inr (newError (''type mismatch: '' @ lt @ '' '' @ operator @ '' '' @ rt) h)
                  else
                    Inr (newError (''unknown operator: '' @ lt @ '' '' @ operator @ '' '' @ rt) h)))"

definition internal_evalIdentifier :: "addr \<Rightarrow> string \<Rightarrow> heap \<Rightarrow> Object result" where
  "internal_evalIdentifier env name h =
     (case Get h env name of
        None \<Rightarrow> None
      | Some (val, True) \<Rightarrow> Some (Inr (val, h))
      | Some (val, False) \<Rightarrow>
          Some (Inr (newError (Sprintf_no_operands (''identifier not found: '' @ name)) h)))"

definition internal_applyFunction ::
  "(addr \<Rightarrow> evaluator) \<Rightarrow> Object \<Rightarrow> Object list \<Rightarrow> heap \<Rightarrow> Object result" where
  "internal_applyFunction ev fn args h =
     (case (case fn of None \<Rightarrow> None | Some a \<Rightarrow> deref h a) of
        Some (Function parameters body fnEnv) \<Rightarrow>
          (case extendFunctionEnv parameters fnEnv args h of
             Inl p \<Rightarrow> Some (Inl p)
           | Inr (extendedEnv, h') \<Rightarrow>
               andThen (ev extendedEnv (BlockStatement body) h') (\<lambda>evaluated h.
                 Some (Inr (unwrapReturnValue h evaluated, h))))
      | Some (Builtin f) \<Rightarrow> Some (applyBuiltin f args h)
      | _ \<Rightarrow> Some (withType h fn (\<lambda>t. Inr (newError (''not a function: '' @ t) h))))"

primrec internal_Eval :: "nat \<Rightarrow> addr \<Rightarrow> node \<Rightarrow> heap \<Rightarrow> Object result" where
  "internal_Eval 0 env node h = None"
| "internal_Eval (Suc n) env node h =
     (case node of
        Program statements \<Rightarrow> evalProgram (internal_Eval n env) statements None h
      | ExpressionStatement expression \<Rightarrow> internal_Eval n env expression h
      | IntegerLiteral v \<Rightarrow> Some (Inr (alloc (Integer v) h))
      | BooleanLiteral v \<Rightarrow> Some (Inr (nativeBoolToBooleanObject v, h))
      | PrefixExpression operator right \<Rightarrow>
          andThen (internal_Eval n env right h) (\<lambda>right h.
            if isError h right then Some (Inr (right, h))
            else Some (evalPrefixExpression operator right h))
      | InfixExpression left operator right \<Rightarrow>
          andThen (internal_Eval n env left h) (\<lambda>left h.
            if isError h left then Some (Inr (left, h))
            else andThen (internal_Eval n env right h) (\<lambda>right h.
              if isError h right then Some (Inr (right, h))
              else Some (internal_evalInfixExpression operator left right h)))
      | BlockStatement statements \<Rightarrow>
          evalBlockStatement (internal_Eval n env) statements None h
      | IfExpression cond consequence alternative \<Rightarrow>
          evalIfExpression (internal_Eval n env) cond consequence alternative h
      | ReturnStatement returnValue \<Rightarrow>
          andThen (internal_Eval n env returnValue h) (\<lambda>val h.
            if isError h val then Some (Inr (val, h))
            else Some (Inr (alloc (ReturnValue val) h)))
      | LetStatement name v \<Rightarrow>
          andThen (internal_Eval n env v h) (\<lambda>val h.
            if isError h val then Some (Inr (val, h))
            else Some (Set env name val h))
      | Identifier name \<Rightarrow> internal_evalIdentifier env name h
      | FunctionLiteral parameters body \<Rightarrow> Some (Inr (alloc (Function parameters body env) h))
      | CallExpression function arguments \<Rightarrow>
          andThen (internal_Eval n env function h) (\<lambda>function h.
            if isError h function then Some (Inr (function, h))
            else andThen (evalExpressions (internal_Eval n env) arguments [] h) (\<lambda>args h.
              if length args = 1 \<and> isError h (args ! 0) then Some (Inr (args ! 0, h))
              else internal_applyFunction (internal_Eval n) function args h))
      | _ \<Rightarrow> Some (Inr (None, h)))"

section \<open>Example programs\<close>

text \<open>
  \<open>let makeAdder = fn(x) { fn(y) { x + y } }; let addFive = makeAdder(5); addFive(3)\<close>
\<close>

definition closure_program :: node where
  "closure_program = Program
     [LetStatement ''makeAdder''
        (FunctionLiteral [''x'']
           [ExpressionStatement (FunctionLiteral [''y'']
              [ExpressionStatement
                 (InfixExpression (Identifier ''x'') ''+'' (Identifier ''y''))])]),
      LetStatement ''addFive'' (CallExpression (Identifier ''makeAdder'') [IntegerLiteral 5]),
      ExpressionStatement (CallExpression (Identifier ''addFive'') [IntegerLiteral 3])]"

text \<open>\<open>[1, 2, 3]\<close>\<close>

definition array_123 :: node where
  "array_123 = ArrayLiteral [IntegerLiteral 1, IntegerLiteral 2, IntegerLiteral 3]"

text \<open>\<open>return if (true) { return 5 };\<close>\<close>

definition nested_return :: node where
  "nested_return =
     ReturnStatement (IfExpression (BooleanLiteral True) [ReturnStatement (IntegerLiteral 5)] None)"

text \<open>
  A heap for the examples: the package's objects, then the integers 1, 2, 3 at the
  addresses 9, 10, 11, the array \<open>[1, 2, 3]\<close> at 12, the integers 5 and 0 at 13 and 14,
  the strings \<open>"a"\<close>, \<open>"b"\<close> and \<open>""\<close> at 15, 16 and 17, a \<open>ReturnValue\<close> of the integer
  5 at 18, and at 19 the hash \<open>{"a": 1}\<close> under the keys of \<open>example_HashKey\<close> below.
\<close>

definition example_heap :: heap where
  "example_heap =
     \<lparr>objects = package_objects @
        [Integer 1, Integer 2, Integer 3, Array [Some 9, Some 10, Some 11],
         Integer 5, Integer 0, String ''a'', String ''b'', String [], ReturnValue (Some 13),
         Hash [(HashKey ''STRING'' 97, Some 15, Some 9)]],
      environments = [\<lparr>store = Map.empty, outer = None\<rparr>]\<rparr>"

text \<open>A \<open>HashKey\<close> parameter for the examples: the three hashable kinds, and no others.\<close>

definition example_HashKey :: "object \<Rightarrow> HashKey option" where
  "example_HashKey ob =
     (case ob of
        Integer v \<Rightarrow> Some (HashKey ''INTEGER'' v)
      | Boolean b \<Rightarrow> Some (HashKey ''BOOLEAN'' (if b then 1 else 0))
      | String s \<Rightarrow> Some (HashKey ''STRING'' (foldl (\<lambda>k c. 31 * k + of_nat (of_char c)) 0 s))
      | _ \<Rightarrow> None)"

text \<open>A heap in which the package-level variables have been initialised.\<close>

definition package_heap :: "heap \<Rightarrow> bool" where
  "package_heap h \<longleftrightarrow> (\<exists>obs. objects h = package_objects @ obs)"

section \<open>Predicates of the statements\<close>

definition is_signal :: "heap \<Rightarrow> Object \<Rightarrow> bool" where
  \<comment> \<open>the result is an \<open>Error\<close> or a \<open>ReturnValue\<close>\<close>
  "is_signal h obj \<longleftrightarrow>
     obj \<noteq> None \<and> (ObjectType h obj = Inr ''RETURN_VALUE'' \<or> ObjectType h obj = Inr ''ERROR'')"

definition singleton_kind :: "object \<Rightarrow> bool" where
  "singleton_kind ob \<longleftrightarrow> ob = Null \<or> (\<exists>b. ob = Boolean b)"

definition singletons :: "heap \<Rightarrow> bool" where
  \<comment> \<open>the only \<open>Boolean\<close> objects are \<open>TRUE\<close> and \<open>FALSE\<close>, the only \<open>Null\<close> is \<open>NULL\<close>\<close>
  "singletons h \<longleftrightarrow>
     (\<forall>a < length (objects h).
        (\<forall>b. objects h ! a = Boolean b \<longrightarrow> a = (if b then TRUE else FALSE))
        \<and> (objects h ! a = Null \<longrightarrow> a = NULL))"

definition extends :: "heap \<Rightarrow> heap \<Rightarrow> bool" where
  \<comment> \<open>the objects of \<open>h\<close> are kept, no \<open>Boolean\<close> and no \<open>Null\<close> has been allocated\<close>
  "extends h h' \<longleftrightarrow>
     (\<exists>obs. objects h' = objects h @ obs \<and> (\<forall>ob \<in> set obs. \<not> singleton_kind ob))"

section \<open>The pairs of a hash literal, in the words of the spec\<close>

text \<open>
  The spec on a hash literal: "evaluate each key then its value, in unspecified pair
  order, validating each key is Hashable". \<open>evaluated_pairs hk ev ps h\<close> follows these
  words, not the source: it is the list of the hash keys with the keys and the values, in
  the order of the evaluation, and the heap at the end, when every key evaluates to a
  Hashable object and neither a key nor a value is an \<open>Error\<close>; it is \<open>None\<close> otherwise.
\<close>

fun evaluated_pairs ::
  "(object \<Rightarrow> HashKey option) \<Rightarrow> evaluator \<Rightarrow> (node \<times> node) list \<Rightarrow> heap
     \<Rightarrow> ((HashKey \<times> Object \<times> Object) list \<times> heap) option" where
  "evaluated_pairs hk ev [] h = Some ([], h)"
| "evaluated_pairs hk ev ((keyNode, valueNode) # rest) h =
     (case ev keyNode h of
        Some (Inr (key, h1)) \<Rightarrow>
          if isError h1 key then None
          else (case asHashable hk h1 key of
                  None \<Rightarrow> None
                | Some hashed \<Rightarrow>
                    (case ev valueNode h1 of
                       Some (Inr (val, h2)) \<Rightarrow>
                         if isError h2 val then None
                         else (case evaluated_pairs hk ev rest h2 of
                                 None \<Rightarrow> None
                               | Some (es, h') \<Rightarrow> Some ((hashed, key, val) # es, h'))
                     | _ \<Rightarrow> None))
      | _ \<Rightarrow> None)"

section \<open>Properties of the lexer\<close>

lemma lexer_inv_readChar: "lexer_inv (readChar l)"
  by (simp add: lexer_inv_def readChar_def)

lemma lexer_inv_New: "lexer_inv (New s)"
  by (simp add: New_def lexer_inv_readChar)

lemma input_readChar: "input (readChar l) = input l"
  by (simp add: readChar_def)

lemma position_readChar: "lexer_inv l \<Longrightarrow> position (readChar l) = position l + 1"
  by (simp add: readChar_def lexer_inv_def)

lemma skipWhitespace_facts:
  "lexer_inv l \<Longrightarrow>
   lexer_inv (skipWhitespace l) \<and> input (skipWhitespace l) = input l
   \<and> position l \<le> position (skipWhitespace l) \<and> \<not> isWhitespace (ch (skipWhitespace l))
   \<and> (length (input l) \<le> position l \<longrightarrow> skipWhitespace l = l)"
proof (induction l rule: skipWhitespace.induct)
  case (1 l)
  show ?case
  proof (cases "isWhitespace (ch l)")
    case True
    have ne: "ch l \<noteq> CHR 0x00" using True by (auto simp: isWhitespace_def)
    have lt: "position l < length (input l)"
      using ne "1.prems" by (auto simp: lexer_inv_def split: if_splits)
    have ih: "lexer_inv (skipWhitespace (readChar l)) \<and>
      input (skipWhitespace (readChar l)) = input (readChar l) \<and>
      position (readChar l) \<le> position (skipWhitespace (readChar l)) \<and>
      \<not> isWhitespace (ch (skipWhitespace (readChar l)))"
      using "1.IH"[OF True lexer_inv_readChar] by simp
    have eq: "skipWhitespace l = skipWhitespace (readChar l)"
      using True by (subst skipWhitespace.simps) simp
    show ?thesis
      using ih lt "1.prems" by (simp add: eq input_readChar position_readChar)
  next
    case False
    then have eq: "skipWhitespace l = l" by (subst skipWhitespace.simps) simp
    show ?thesis using False "1.prems" by (simp add: eq)
  qed
qed

lemma readLetters_facts:
  "lexer_inv l \<Longrightarrow> position l \<le> length (input l) \<Longrightarrow>
   lexer_inv (readLetters l) \<and> input (readLetters l) = input l
   \<and> position l \<le> position (readLetters l) \<and> position (readLetters l) \<le> length (input l)
   \<and> (isLetter (ch l) \<longrightarrow> position l < position (readLetters l))"
proof (induction l rule: readLetters.induct)
  case (1 l)
  show ?case
  proof (cases "isLetter (ch l)")
    case True
    have ne: "ch l \<noteq> CHR 0x00" using True by (auto simp: isLetter_def)
    have lt: "position l < length (input l)"
      using ne "1.prems" by (auto simp: lexer_inv_def split: if_splits)
    have le: "position (readChar l) \<le> length (input (readChar l))"
      using lt "1.prems" by (simp add: input_readChar position_readChar)
    have ih: "lexer_inv (readLetters (readChar l)) \<and>
      input (readLetters (readChar l)) = input (readChar l) \<and>
      position (readChar l) \<le> position (readLetters (readChar l)) \<and>
      position (readLetters (readChar l)) \<le> length (input (readChar l))"
      using "1.IH"[OF True lexer_inv_readChar le] by simp
    have eq: "readLetters l = readLetters (readChar l)"
      using True by (subst readLetters.simps) simp
    show ?thesis
      using ih lt "1.prems" by (simp add: eq input_readChar position_readChar)
  next
    case False
    then have eq: "readLetters l = l" by (subst readLetters.simps) simp
    show ?thesis using False "1.prems" by (simp add: eq)
  qed
qed

lemma readDigits_facts:
  "lexer_inv l \<Longrightarrow> position l \<le> length (input l) \<Longrightarrow>
   lexer_inv (readDigits l) \<and> input (readDigits l) = input l
   \<and> position l \<le> position (readDigits l) \<and> position (readDigits l) \<le> length (input l)
   \<and> (isDigit (ch l) \<longrightarrow> position l < position (readDigits l))"
proof (induction l rule: readDigits.induct)
  case (1 l)
  show ?case
  proof (cases "isDigit (ch l)")
    case True
    have ne: "ch l \<noteq> CHR 0x00" using True by (auto simp: isDigit_def)
    have lt: "position l < length (input l)"
      using ne "1.prems" by (auto simp: lexer_inv_def split: if_splits)
    have le: "position (readChar l) \<le> length (input (readChar l))"
      using lt "1.prems" by (simp add: input_readChar position_readChar)
    have ih: "lexer_inv (readDigits (readChar l)) \<and>
      input (readDigits (readChar l)) = input (readChar l) \<and>
      position (readChar l) \<le> position (readDigits (readChar l)) \<and>
      position (readDigits (readChar l)) \<le> length (input (readChar l))"
      using "1.IH"[OF True lexer_inv_readChar le] by simp
    have eq: "readDigits l = readDigits (readChar l)"
      using True by (subst readDigits.simps) simp
    show ?thesis
      using ih lt "1.prems" by (simp add: eq input_readChar position_readChar)
  next
    case False
    then have eq: "readDigits l = l" by (subst readDigits.simps) simp
    show ?thesis using False "1.prems" by (simp add: eq)
  qed
qed

lemma single_facts:
  "lexer_inv l \<Longrightarrow> single t l = Inr (\<lparr>Type = t, Literal = string_of_byte (ch l)\<rparr>, readChar l)
     \<and> lexer_inv (readChar l) \<and> input (readChar l) = input l \<and> position l < position (readChar l)"
  by (simp add: single_def lexer_inv_readChar input_readChar position_readChar)

lemma readIdentifier_facts:
  assumes inv: "lexer_inv l" and isl: "isLetter (ch l)"
  shows "\<exists>lit l'. readIdentifier l = (Inr lit, l') \<and> lexer_inv l' \<and> input l' = input l
           \<and> position l < position l'"
proof -
  have ne: "ch l \<noteq> CHR 0x00" using isl by (auto simp: isLetter_def)
  have le: "position l \<le> length (input l)"
    using ne inv by (auto simp: lexer_inv_def split: if_splits)
  from readLetters_facts[OF inv le] isl show ?thesis
    by (simp add: readIdentifier_def Let_def slice_def)
qed

lemma readNumber_facts:
  assumes inv: "lexer_inv l" and dig: "isDigit (ch l)"
  shows "\<exists>lit l'. readNumber l = (Inr lit, l') \<and> lexer_inv l' \<and> input l' = input l
           \<and> position l < position l'"
proof -
  have ne: "ch l \<noteq> CHR 0x00" using dig by (auto simp: isDigit_def)
  have le: "position l \<le> length (input l)"
    using ne inv by (auto simp: lexer_inv_def split: if_splits)
  from readDigits_facts[OF inv le] dig show ?thesis
    by (simp add: readNumber_def Let_def slice_def)
qed

lemma NextToken_after_skip:
  assumes inv: "lexer_inv l"
  shows "\<exists>t l'. NextToken l = Inr (t, l') \<and> lexer_inv l' \<and> input l' = input l
           \<and> position l < position l'"
proof -
  define l1 where "l1 = skipWhitespace l"
  have f1: "lexer_inv l1" "input l1 = input l" "position l \<le> position l1"
    using skipWhitespace_facts[OF inv] by (simp_all add: l1_def)
  note s = single_facts[OF f1(1)]
  have two: "lexer_inv (readChar (readChar l1)) \<and> input (readChar (readChar l1)) = input l
       \<and> position l < position (readChar (readChar l1))"
    using f1 by (simp add: lexer_inv_readChar input_readChar position_readChar)
  consider (id) "isLetter (ch l1)" | (num) "\<not> isLetter (ch l1)" "isDigit (ch l1)"
    | (other) "\<not> isLetter (ch l1)" "\<not> isDigit (ch l1)" by blast
  then show ?thesis
  proof cases
    case id
    then have nz: "ch l1 \<notin> set ''=+-!/*<>;(),{}''" "ch l1 \<noteq> CHR 0x00"
      by (auto simp: isLetter_def)
    from readIdentifier_facts[OF f1(1) id] obtain lit l' where
      r: "readIdentifier l1 = (Inr lit, l')" "lexer_inv l'" "input l' = input l1"
         "position l1 < position l'" by blast
    show ?thesis
      using nz id r f1 unfolding NextToken_def Let_def l1_def[symmetric]
      by simp
  next
    case num
    then have nz: "ch l1 \<notin> set ''=+-!/*<>;(),{}''" "ch l1 \<noteq> CHR 0x00"
      by (auto simp: isDigit_def)
    from readNumber_facts[OF f1(1) num(2)] obtain lit l' where
      r: "readNumber l1 = (Inr lit, l')" "lexer_inv l'" "input l' = input l1"
         "position l1 < position l'" by blast
    show ?thesis
      using nz num r f1 unfolding NextToken_def Let_def l1_def[symmetric]
      by simp
  next
    case other
    have p1: "position l < position (readChar l1)"
      using f1 by (simp add: position_readChar)
    show ?thesis
      using other two f1 p1 unfolding NextToken_def Let_def l1_def[symmetric]
      by (simp add: single_def lexer_inv_readChar input_readChar)
  qed
qed

lemma NextToken_at_end:
  assumes inv: "lexer_inv l" and e: "length (input l) \<le> position l"
  shows "\<exists>l'. NextToken l = Inr (\<lparr>Type = EOF, Literal = ''''\<rparr>, l')"
proof -
  have sk: "skipWhitespace l = l" using skipWhitespace_facts[OF inv] e by simp
  have c: "ch l = CHR 0x00" using inv e by (simp add: lexer_inv_def)
  show ?thesis unfolding NextToken_def Let_def sk c by simp
qed

lemma NextToken_no_rule:
  assumes nr: "no_rule (ch l)"
  shows "NextToken l = Inr (\<lparr>Type = ILLEGAL, Literal = string_of_byte (ch l)\<rparr>, readChar l)"
proof -
  have sk: "skipWhitespace l = l"
    using nr by (subst skipWhitespace.simps) (simp add: no_rule_def)
  show ?thesis
    using nr unfolding NextToken_def Let_def sk no_rule_def by (simp add: single_def)
qed

lemma tokens_reach_EOF:
  "lexer_inv l \<Longrightarrow> length (input l) - position l < n \<Longrightarrow>
   \<exists>ts. tokens n l = Some (Inr ts) \<and> ts \<noteq> [] \<and> Type (last ts) = EOF
        \<and> (\<forall>t \<in> set (butlast ts). Type t \<noteq> EOF) \<and> length ts \<le> n"
proof (induction n arbitrary: l)
  case 0
  then show ?case by simp
next
  case (Suc n)
  from NextToken_after_skip[OF Suc.prems(1)] obtain t l' where
    nt: "NextToken l = Inr (t, l')" "lexer_inv l'" "input l' = input l"
        "position l < position l'" by blast
  show ?case
  proof (cases "Type t = EOF")
    case True
    then show ?thesis using nt by simp
  next
    case False
    have "\<not> length (input l) \<le> position l"
      using NextToken_at_end[OF Suc.prems(1)] nt(1) False by auto
    then have "length (input l') - position l' < n" using nt Suc.prems(2) by simp
    from Suc.IH[OF nt(2) this] obtain ts where
      ts: "tokens n l' = Some (Inr ts)" "ts \<noteq> []" "Type (last ts) = EOF"
          "\<forall>t \<in> set (butlast ts). Type t \<noteq> EOF" "length ts \<le> n" by blast
    show ?thesis using nt False ts by simp
  qed
qed


text \<open>
  What \<open>NextToken\<close> does on a character without a rule. When the current character is
  not skipped and matches no rule of the switch, the token is \<open>ILLEGAL\<close> and its literal
  is the conversion \<open>string(l.ch)\<close>: the byte itself when it is below \<open>0x80\<close>, and
  otherwise the two bytes of the UTF-8 encoding of the code point with the byte's value.
  A lexer made by \<open>New\<close> and advanced by \<open>NextToken\<close> never panics: every call returns a
  token.
\<close>

lemma NextToken_illegal:
  "(no_rule (ch l) \<longrightarrow>
      NextToken l = Inr (\<lparr>Type = ILLEGAL, Literal = string_of_byte (ch l)\<rparr>, readChar l))
   \<and> ((of_char (ch l) :: nat) < 128 \<longrightarrow> string_of_byte (ch l) = [ch l])
   \<and> (128 \<le> (of_char (ch l) :: nat) \<longrightarrow>
        string_of_byte (ch l) = [char_of (192 + (of_char (ch l) :: nat) div 64),
                                 char_of (128 + (of_char (ch l) :: nat) mod 64)])
   \<and> lexer_inv (New s)
   \<and> (lexer_inv l \<longrightarrow> (\<exists>t l'. NextToken l = Inr (t, l') \<and> lexer_inv l'))"
proof -
  have "lexer_inv l \<longrightarrow> (\<exists>t l'. NextToken l = Inr (t, l') \<and> lexer_inv l')"
    using NextToken_after_skip[of l] by blast
  then show ?thesis
    using NextToken_no_rule[of l] by (simp add: string_of_byte_def lexer_inv_New)
qed

lemma NextToken_illegal_ascii:
  "no_rule (ch (New ''@'')) \<and> (of_char (ch (New ''@'')) :: nat) < 128
   \<and> lexer_inv (New ''@'')
   \<and> NextToken (New ''@'')
       = Inr (\<lparr>Type = ILLEGAL, Literal = ''@''\<rparr>,
              \<lparr>input = ''@'', position = 1, readPosition = 2, ch = CHR 0x00\<rparr>)"
proof -
  have c: "ch (New ''@'') = CHR ''@''" by (simp add: New_def readChar_def)
  have nr: "no_rule (ch (New ''@''))"
    unfolding c by (simp add: no_rule_def isWhitespace_def isLetter_def isDigit_def)
  have lt: "(of_char (ch (New ''@'')) :: nat) < 128" unfolding c by simp
  have rc: "readChar (New ''@'')
              = \<lparr>input = ''@'', position = 1, readPosition = 2, ch = CHR 0x00\<rparr>"
    by (simp add: New_def readChar_def)
  from NextToken_illegal[of "New ''@''" "''@''"] nr lt
  show ?thesis by (simp add: c rc)
qed

text \<open>
  C8 at the input byte \<open>0xC3\<close> (the first byte of a two-byte UTF-8 character). The byte
  matches no rule and the token is \<open>ILLEGAL\<close>, but its literal is not that single byte:
  it is the two bytes \<open>0xC3 0x83\<close>.
\<close>

theorem NextToken_illegal_high_byte:
  "no_rule (ch (New [CHR 0xC3]))
   \<and> map_sum id fst (NextToken (New [CHR 0xC3]))
       = Inr \<lparr>Type = ILLEGAL, Literal = [CHR 0xC3, CHR 0x83]\<rparr>
   \<and> map_sum id (Literal \<circ> fst) (NextToken (New [CHR 0xC3])) \<noteq> Inr [CHR 0xC3]"
proof -
  have c: "ch (New [CHR 0xC3]) = CHR 0xC3" by (simp add: New_def readChar_def)
  have nr: "no_rule (ch (New [CHR 0xC3]))"
    unfolding c by (simp add: no_rule_def isWhitespace_def isLetter_def isDigit_def)
  have s: "string_of_byte (CHR 0xC3) = [CHR 0xC3, CHR 0x83]" by code_simp
  show ?thesis using nr NextToken_no_rule[OF nr] by (simp add: c s)
qed

text \<open>
  C9. For every input \<open>s\<close>, calling \<open>NextToken\<close> on \<open>New s\<close> until the end-of-file token
  comes returns a non-empty, finite list of tokens whose last one, and only whose last
  one, is the end-of-file token, after at most \<open>length s + 1\<close> calls and without a
  panic. Every call on a lexer made by \<open>New\<close> and advanced by \<open>NextToken\<close> returns and
  moves \<open>position\<close> strictly forward.
\<close>

theorem tokens_end_with_EOF:
  "(\<exists>ts. tokens (Suc (length s)) (New s) = Some (Inr ts) \<and> ts \<noteq> []
          \<and> Type (last ts) = EOF \<and> (\<forall>t \<in> set (butlast ts). Type t \<noteq> EOF)
          \<and> length ts \<le> Suc (length s))
   \<and> lexer_inv (New s)
   \<and> (lexer_inv l \<longrightarrow>
        (\<exists>t l'. NextToken l = Inr (t, l') \<and> lexer_inv l' \<and> position l < position l'))"
proof -
  have "length (input (New s)) - position (New s) < Suc (length s)"
    by (simp add: New_def readChar_def)
  from tokens_reach_EOF[OF lexer_inv_New this] NextToken_after_skip[of l]
  show ?thesis by (auto simp: lexer_inv_New)
qed

theorem tokens_end_with_EOF_witness:
  "lexer_inv (New ''x;'')
   \<and> (\<exists>ts. tokens (Suc (length ''x;'')) (New ''x;'') = Some (Inr ts)
            \<and> Type (last ts) = EOF \<and> length ts \<le> 3)
   \<and> (\<exists>t l'. NextToken (New ''x;'') = Inr (t, l') \<and> position (New ''x;'') < position l')"
proof -
  have i: "lexer_inv (New ''x;'')" by (simp add: lexer_inv_def New_def readChar_def)
  from tokens_end_with_EOF[of "''x;''" "New ''x;''"] i
  show ?thesis by auto
qed

section \<open>Properties of the interpreter\<close>

subsection \<open>Evaluation of concrete programs\<close>

lemma andThen_simps [simp]:
  "andThen None f = None"
  "andThen (Some (Inl p)) f = Some (Inl p)"
  "andThen (Some (Inr (v, h))) f = f v h"
  by (simp_all add: andThen_def)

lemma andThen_cong [cong]: "m = m' \<Longrightarrow> andThen m f = andThen m' f"
  by simp

lemma withType_cong [cong]: "h = h' \<Longrightarrow> obj = obj' \<Longrightarrow> withType h obj f = withType h' obj' f"
  by simp

lemmas Eval_numeral = Eval.simps(2)[where n="pred_numeral k" for k, folded numeral_eq_Suc]
lemmas Eval_1 = Eval.simps(2)[where n=0, folded One_nat_def]
lemmas internal_Eval_numeral =
  internal_Eval.simps(2)[where n="pred_numeral k" for k, folded numeral_eq_Suc]
lemmas internal_Eval_1 = internal_Eval.simps(2)[where n=0, folded One_nat_def]

lemmas run_defs = New_Interpreter_def internal_New_def NewEnvironment_def package_objects_def
  Eval_numeral Eval_1 internal_Eval_numeral internal_Eval_1
  result_object_def deref_def alloc_def newError_def isError_def ObjectType_def
  withType_def Set_def evalIdentifier_def internal_evalIdentifier_def Sprintf_no_operands_def
  Get.simps builtins_def
  applyFunction_def internal_applyFunction_def
  extendFunctionEnv_def unwrapReturnValue_def evalInfixExpression_def internal_evalInfixExpression_def
  evalStringInfixExpression_def evalIntegerInfixExpression_def nth_append TRUE_def FALSE_def NULL_def
  evalIndexExpression_def evalArrayIndexExpression_def evalHashIndexExpression_def asHashable_def
  evalIfExpression_def isTruthy_def nativeBoolToBooleanObject_def evalPrefixExpression_def
  evalBangOperatorExpression_def evalMinusPrefixOperatorExpression_def


subsection \<open>Operators and index expressions\<close>

lemma deref_package:
  "package_heap h \<Longrightarrow> deref h TRUE = Some (Boolean True) \<and> deref h FALSE = Some (Boolean False)
     \<and> deref h NULL = Some Null"
  by (auto simp: package_heap_def package_objects_def deref_def TRUE_def FALSE_def NULL_def)

text \<open>
  C5. The prefix operator \<open>!\<close> answers \<open>TRUE\<close> exactly when its operand is the \<open>NULL\<close>
  or the \<open>FALSE\<close> object and \<open>FALSE\<close> for every other operand; \<open>isTruthy\<close> is the
  negation of that test, and it selects the branch of an if expression. So \<open>Eval\<close> of
  \<open>!right\<close> is decided by the value of \<open>right\<close> (an \<open>Error\<close> operand is handed on before the
  operator is applied). Every object that is neither \<open>Null\<close> nor the boolean false, the
  integer 0 and the empty string among them, is truthy. In particular \<open>!true\<close>, \<open>!false\<close>,
  \<open>!5\<close> and \<open>!\<close> of a null value (an if expression without alternative whose condition is
  false) evaluate to false, true, false and true.
\<close>

theorem bang_truthiness:
  "evalPrefixExpression ''!'' v h
     = Inr (if v = Some NULL \<or> v = Some FALSE then Some TRUE else Some FALSE, h)
   \<and> (isTruthy v \<longleftrightarrow> \<not> (v = Some NULL \<or> v = Some FALSE))
   \<and> (Eval hk n env right h = Some (Inr (v, h1)) \<and> \<not> isError h1 v \<longrightarrow>
        Eval hk (Suc n) env (PrefixExpression ''!'' right) h
          = Some (Inr (if v = Some NULL \<or> v = Some FALSE then Some TRUE else Some FALSE, h1)))
   \<and> (ev cond h = Some (Inr (v, h1)) \<and> \<not> isError h1 v \<longrightarrow>
        evalIfExpression ev cond consequence alternative h
          = (if \<not> (v = Some NULL \<or> v = Some FALSE) then ev (BlockStatement consequence) h1
             else (case alternative of
                     Some alt \<Rightarrow> ev (BlockStatement alt) h1
                   | None \<Rightarrow> Some (Inr (Some NULL, h1)))))
   \<and> (package_heap h \<and> deref h a = Some ob \<and> ob \<noteq> Null \<and> ob \<noteq> Boolean False \<longrightarrow>
        evalPrefixExpression ''!'' (Some a) h = Inr (Some FALSE, h) \<and> isTruthy (Some a))
   \<and> result_object (Eval hk 2 0 (PrefixExpression ''!'' (BooleanLiteral True))
        (snd New_Interpreter)) = Some (Inr (Some (Boolean False)))
   \<and> result_object (Eval hk 2 0 (PrefixExpression ''!'' (BooleanLiteral False))
        (snd New_Interpreter)) = Some (Inr (Some (Boolean True)))
   \<and> result_object (Eval hk 2 0 (PrefixExpression ''!'' (IntegerLiteral 5))
        (snd New_Interpreter)) = Some (Inr (Some (Boolean False)))
   \<and> result_object (Eval hk 3 0 (PrefixExpression ''!''
          (IfExpression (BooleanLiteral False) [IntegerLiteral 1] None))
        (snd New_Interpreter)) = Some (Inr (Some (Boolean True)))"
proof -
  have ex:
    "result_object (Eval hk 2 0 (PrefixExpression ''!'' (BooleanLiteral True))
        (snd New_Interpreter)) = Some (Inr (Some (Boolean False)))"
    "result_object (Eval hk 2 0 (PrefixExpression ''!'' (BooleanLiteral False))
        (snd New_Interpreter)) = Some (Inr (Some (Boolean True)))"
    "result_object (Eval hk 2 0 (PrefixExpression ''!'' (IntegerLiteral 5))
        (snd New_Interpreter)) = Some (Inr (Some (Boolean False)))"
    "result_object (Eval hk 3 0 (PrefixExpression ''!''
          (IfExpression (BooleanLiteral False) [IntegerLiteral 1] None))
        (snd New_Interpreter)) = Some (Inr (Some (Boolean True)))"
    by (simp_all add: run_defs)
  have 1: "evalPrefixExpression ''!'' v h
     = Inr (if v = Some NULL \<or> v = Some FALSE then Some TRUE else Some FALSE, h)" for v h
    by (simp add: evalPrefixExpression_def evalBangOperatorExpression_def TRUE_def FALSE_def NULL_def)
  have 2: "isTruthy v \<longleftrightarrow> \<not> (v = Some NULL \<or> v = Some FALSE)" for v
    by (simp add: isTruthy_def TRUE_def FALSE_def NULL_def)
  have 3: "Eval hk n env right h = Some (Inr (v, h1)) \<and> \<not> isError h1 v \<longrightarrow>
        Eval hk (Suc n) env (PrefixExpression ''!'' right) h
          = Some (Inr (if v = Some NULL \<or> v = Some FALSE then Some TRUE else Some FALSE, h1))"
    by (simp add: 1)
  have 4: "ev cond h = Some (Inr (v, h1)) \<and> \<not> isError h1 v \<longrightarrow>
        evalIfExpression ev cond consequence alternative h
          = (if \<not> (v = Some NULL \<or> v = Some FALSE) then ev (BlockStatement consequence) h1
             else (case alternative of
                     Some alt \<Rightarrow> ev (BlockStatement alt) h1
                   | None \<Rightarrow> Some (Inr (Some NULL, h1))))"
    by (simp add: evalIfExpression_def 2)
  have 5: "package_heap h \<and> deref h a = Some ob \<and> ob \<noteq> Null \<and> ob \<noteq> Boolean False \<longrightarrow>
        evalPrefixExpression ''!'' (Some a) h = Inr (Some FALSE, h) \<and> isTruthy (Some a)"
    using deref_package[of h] by (auto simp: 1 2)
  show ?thesis unfolding ex using 1[of v h] 2[of v] 3 4 5 by blast
qed


lemma example_heap_package: "package_heap example_heap"
  by (simp add: package_heap_def example_heap_def)

text \<open>
  The hypotheses of C5 at the integer 0 of the example heap, at \<open>!false\<close> and at
  \<open>if (false) { 1 }\<close>.
\<close>

theorem bang_truthiness_witness:
  "package_heap example_heap
   \<and> deref example_heap 14 = Some (Integer 0) \<and> deref example_heap 17 = Some (String [])
   \<and> evalPrefixExpression ''!'' (Some 14) example_heap = Inr (Some FALSE, example_heap)
   \<and> isTruthy (Some 14)
   \<and> Eval example_HashKey 1 0 (BooleanLiteral False) example_heap
        = Some (Inr (Some FALSE, example_heap))
   \<and> \<not> isError example_heap (Some FALSE)
   \<and> Eval example_HashKey 2 0 (PrefixExpression ''!'' (BooleanLiteral False)) example_heap
        = Some (Inr (Some TRUE, example_heap))
   \<and> evalIfExpression (Eval example_HashKey 1 0) (BooleanLiteral False) [IntegerLiteral 1] None
        example_heap = Some (Inr (Some NULL, example_heap))"
proof -
  have d: "deref example_heap 14 = Some (Integer 0)" "deref example_heap 17 = Some (String [])"
    by (simp_all add: deref_def example_heap_def package_objects_def)
  have e: "Eval example_HashKey 1 0 (BooleanLiteral False) example_heap
        = Some (Inr (Some FALSE, example_heap))"
    by (simp add: run_defs)
  have ne: "\<not> isError example_heap (Some FALSE)"
    by (simp add: run_defs example_heap_def)
  from bang_truthiness[where v="Some FALSE" and h=example_heap and hk=example_HashKey and n=1
      and env=0 and right="BooleanLiteral False" and ?h1.0=example_heap
      and ev="Eval example_HashKey 1 0" and cond="BooleanLiteral False"
      and consequence="[IntegerLiteral 1]" and alternative=None and a=14 and ob="Integer 0"]
    example_heap_package d e ne
  show ?thesis by (simp add: numeral_2_eq_2)
qed

text \<open>
  C6. For an array of \<open>n\<close> elements and an integer index \<open>i\<close>, the index expression
  returns the element at \<open>i\<close> when \<open>0 \<le> i \<le> n - 1\<close>, and the \<open>NULL\<close> object, in an
  unchanged heap and with no \<open>Error\<close> allocated, when \<open>i < 0\<close> or \<open>i > n - 1\<close>;
  \<open>[1, 2, 3][5]\<close> evaluates to \<open>Null\<close>.
\<close>

theorem evalArrayIndexExpression_bounds:
  "(deref h a = Some (Array elements) \<and> deref h i = Some (Integer idx) \<longrightarrow>
      evalIndexExpression hk (Some a) (Some i) h = evalArrayIndexExpression (Some a) (Some i) h
      \<and> (0 \<le> sint idx \<and> sint idx \<le> int (length elements) - 1 \<longrightarrow>
           evalArrayIndexExpression (Some a) (Some i) h = Inr (elements ! nat (sint idx), h))
      \<and> (sint idx < 0 \<or> sint idx > int (length elements) - 1 \<longrightarrow>
           evalArrayIndexExpression (Some a) (Some i) h = Inr (Some NULL, h)))
   \<and> result_object (Eval hk 3 0 (IndexExpression array_123 (IntegerLiteral 5))
        (snd New_Interpreter)) = Some (Inr (Some Null))"
proof -
  have ex: "result_object (Eval hk 3 0 (IndexExpression array_123 (IntegerLiteral 5))
        (snd New_Interpreter)) = Some (Inr (Some Null))"
    by (simp add: run_defs array_123_def)
  show ?thesis
    unfolding ex by (auto simp: evalIndexExpression_def evalArrayIndexExpression_def
        withType_def ObjectType_def)
qed

text \<open>
  The hypotheses of C6 on the array \<open>[1, 2, 3]\<close> of the example heap, at the indices 1
  and 5.
\<close>

theorem evalArrayIndexExpression_bounds_witness:
  "deref example_heap 12 = Some (Array [Some 9, Some 10, Some 11])
   \<and> deref example_heap 9 = Some (Integer 1) \<and> deref example_heap 13 = Some (Integer 5)
   \<and> evalArrayIndexExpression (Some 12) (Some 9) example_heap = Inr (Some 10, example_heap)
   \<and> evalArrayIndexExpression (Some 12) (Some 13) example_heap = Inr (Some NULL, example_heap)"
proof -
  have d: "deref example_heap 12 = Some (Array [Some 9, Some 10, Some 11])"
     "deref example_heap 9 = Some (Integer 1)" "deref example_heap 13 = Some (Integer 5)"
    by (simp_all add: deref_def example_heap_def package_objects_def)
  from evalArrayIndexExpression_bounds[where h=example_heap and a=12 and i=9 and idx=1
         and elements="[Some 9, Some 10, Some 11]"]
       evalArrayIndexExpression_bounds[where h=example_heap and a=12 and i=13 and idx=5
         and elements="[Some 9, Some 10, Some 11]"] d
  show ?thesis by simp
qed


lemma Type_of_STRING: "Type_of ob = ''STRING'' \<longleftrightarrow> (\<exists>s. ob = String s)"
  by (cases ob) simp_all

lemma Type_of_INTEGER: "Type_of ob = ''INTEGER'' \<longleftrightarrow> (\<exists>v. ob = Integer v)"
  by (cases ob) simp_all

text \<open>
  The operator \<open>+\<close> on two objects that are not both integers: two strings give the
  string of the left one followed by the right one; if the operands are not both strings,
  the result is the \<open>Error\<close> "type mismatch: L + R" with the two type names. And
  \<open>"a" + "b"\<close>, \<open>5 + "b"\<close>, \<open>5 + 3\<close> evaluate to the string \<open>"ab"\<close>, to a type mismatch and
  to the integer 8.
\<close>

lemma plus_on_strings:
  "(deref h l = Some lo \<and> deref h r = Some ro
      \<and> \<not> (Type_of lo = ''INTEGER'' \<and> Type_of ro = ''INTEGER'') \<longrightarrow>
      (\<forall>a b. lo = String a \<and> ro = String b \<longrightarrow>
         evalInfixExpression ''+'' (Some l) (Some r) h = Inr (alloc (String (a @ b)) h))
      \<and> (\<not> (Type_of lo = ''STRING'' \<and> Type_of ro = ''STRING'') \<longrightarrow>
           evalInfixExpression ''+'' (Some l) (Some r) h
             = Inr (newError (''type mismatch: '' @ Type_of lo @ '' + '' @ Type_of ro) h)))
   \<and> result_object (Eval hk 2 0 (InfixExpression (StringLiteral ''a'') ''+'' (StringLiteral ''b''))
        (snd New_Interpreter)) = Some (Inr (Some (String ''ab'')))
   \<and> result_object (Eval hk 2 0 (InfixExpression (IntegerLiteral 5) ''+'' (StringLiteral ''b''))
        (snd New_Interpreter)) = Some (Inr (Some (Error ''type mismatch: INTEGER + STRING'')))
   \<and> result_object (Eval hk 2 0 (InfixExpression (IntegerLiteral 5) ''+'' (IntegerLiteral 3))
        (snd New_Interpreter)) = Some (Inr (Some (Integer 8)))"
proof -
  have ex1: "result_object (Eval hk 2 0 (InfixExpression (StringLiteral ''a'') ''+'' (StringLiteral ''b''))
        (snd New_Interpreter)) = Some (Inr (Some (String ''ab'')))"
    by (simp add: run_defs)
  have ex2: "result_object (Eval hk 2 0 (InfixExpression (IntegerLiteral 5) ''+'' (StringLiteral ''b''))
        (snd New_Interpreter)) = Some (Inr (Some (Error ''type mismatch: INTEGER + STRING'')))"
    by (simp add: run_defs)
  have ex3: "result_object (Eval hk 2 0 (InfixExpression (IntegerLiteral 5) ''+'' (IntegerLiteral 3))
        (snd New_Interpreter)) = Some (Inr (Some (Integer 8)))"
    by (simp add: run_defs)
  have gen: "evalInfixExpression ''+'' (Some l) (Some r) h = Inr (alloc (String (a @ b)) h)"
    if "deref h l = Some (String a)" "deref h r = Some (String b)" for a b
    using that by (simp add: evalInfixExpression_def evalStringInfixExpression_def withType_def
        ObjectType_def)
  have mis: "evalInfixExpression ''+'' (Some l) (Some r) h
             = Inr (newError (''type mismatch: '' @ Type_of lo @ '' + '' @ Type_of ro) h)"
    if "deref h l = Some lo" "deref h r = Some ro"
       "\<not> (Type_of lo = ''INTEGER'' \<and> Type_of ro = ''INTEGER'')"
       "\<not> (Type_of lo = ''STRING'' \<and> Type_of ro = ''STRING'')"
    using that by (auto simp: evalInfixExpression_def evalStringInfixExpression_def withType_def
        ObjectType_def)
  show ?thesis unfolding ex1 ex2 ex3 using gen mis by auto
qed

text \<open>
  The operator \<open>+\<close> at \<open>"a" + "b"\<close> and \<open>5 + "b"\<close> on the example heap.
\<close>

lemma plus_on_strings_example:
  "deref example_heap 15 = Some (String ''a'') \<and> deref example_heap 16 = Some (String ''b'')
   \<and> deref example_heap 13 = Some (Integer 5)
   \<and> evalInfixExpression ''+'' (Some 15) (Some 16) example_heap
        = Inr (alloc (String ''ab'') example_heap)
   \<and> evalInfixExpression ''+'' (Some 13) (Some 16) example_heap
        = Inr (newError ''type mismatch: INTEGER + STRING'' example_heap)"
proof -
  have d: "deref example_heap 15 = Some (String ''a'')" "deref example_heap 16 = Some (String ''b'')"
     "deref example_heap 13 = Some (Integer 5)"
    by (simp_all add: deref_def example_heap_def package_objects_def)
  from plus_on_strings[where h=example_heap and l=15 and r=16 and lo="String ''a''"
         and ro="String ''b''"]
       plus_on_strings[where h=example_heap and l=13 and r=16 and lo="Integer 5"
         and ro="String ''b''"] d
  show ?thesis by simp
qed

text \<open>
  C7. An operand of \<open>+\<close> can be without a value: an \<open>if\<close> whose block is empty and a call
  of a function whose body is empty evaluate to the nil interface value. With a string
  on the other side the operands are not both integers, one is a string and the other is
  not, and the result is no type mismatch \<open>Error\<close>: \<open>if (true) {} + "b"\<close> panics in
  \<open>left.Type()\<close>, \<open>"a" + fn() {}()\<close> in \<open>right.Type()\<close>, as \<open>evalInfixExpression\<close> does on
  every right operand when the left one is nil, and on the string \<open>"a"\<close> of the example
  heap when the right one is.
\<close>

theorem plus_without_operand:
  "result_object (Eval hk 4 0
       (InfixExpression (IfExpression (BooleanLiteral True) [] None) ''+'' (StringLiteral ''b''))
       (snd New_Interpreter)) = Some (Inl NilDereference)
   \<and> result_object (Eval hk 4 0
       (InfixExpression (StringLiteral ''a'') ''+'' (CallExpression (FunctionLiteral [] []) []))
       (snd New_Interpreter)) = Some (Inl NilDereference)
   \<and> evalInfixExpression ''+'' None r h = Inl NilDereference
   \<and> evalInfixExpression ''+'' (Some 15) None example_heap = Inl NilDereference"
proof -
  have e1: "result_object (Eval hk 4 0
       (InfixExpression (IfExpression (BooleanLiteral True) [] None) ''+'' (StringLiteral ''b''))
       (snd New_Interpreter)) = Some (Inl NilDereference)"
    by (simp add: run_defs)
  have e2: "result_object (Eval hk 4 0
       (InfixExpression (StringLiteral ''a'') ''+'' (CallExpression (FunctionLiteral [] []) []))
       (snd New_Interpreter)) = Some (Inl NilDereference)"
    by (simp add: run_defs)
  have e3: "evalInfixExpression ''+'' None r h = Inl NilDereference"
    by (simp add: evalInfixExpression_def withType_def ObjectType_def)
  have e4: "evalInfixExpression ''+'' (Some 15) None example_heap = Inl NilDereference"
    by (simp add: run_defs example_heap_def)
  show ?thesis using e1 e2 e3 e4 by simp
qed

lemma Hashable_D:
  "Hashable hk \<Longrightarrow> Type_of ob \<in> {''INTEGER'', ''STRING'', ''BOOLEAN''} \<Longrightarrow> \<exists>key. hk ob = Some key"
  "Hashable hk \<Longrightarrow> Type_of ob \<notin> {''INTEGER'', ''STRING'', ''BOOLEAN''} \<Longrightarrow> hk ob = None"
  unfolding Hashable_def by (metis not_None_eq)+

text \<open>
  The loop of \<open>evalHashLiteral\<close>, started with the pairs \<open>acc\<close>: when the keys and the
  values evaluate as \<open>evaluated_pairs\<close> has it, the loop returns a new \<open>Hash\<close> whose
  pairs are \<open>acc\<close>, assigned to in the order of the evaluation.
\<close>

lemma evalHashLiteral_evaluated_pairs:
  "evaluated_pairs hk ev ps h = Some (es, h') \<Longrightarrow>
   evalHashLiteral hk ev ps acc h
     = Some (Inr (alloc (Hash (foldl (\<lambda>pairs (hashed, pair). AList.update hashed pair pairs)
                                 acc es)) h'))"
proof (induction ps arbitrary: h es acc)
  case Nil
  then show ?case by simp
next
  case (Cons p ps)
  obtain keyNode valueNode where p: "p = (keyNode, valueNode)" by (cases p)
  from Cons.prems obtain key h1 hashed val h2 es' where
    k: "ev keyNode h = Some (Inr (key, h1))" "\<not> isError h1 key"
       "asHashable hk h1 key = Some hashed"
    and v: "ev valueNode h1 = Some (Inr (val, h2))" "\<not> isError h2 val"
    and r: "evaluated_pairs hk ev ps h2 = Some (es', h')"
    and es: "es = (hashed, key, val) # es'"
    unfolding p
    by (auto split: option.splits sum.splits if_splits prod.splits)
  show ?case unfolding p es using k v Cons.IH[OF r] by simp
qed

lemma map_of_assigned:
  "map_of (foldl (\<lambda>pairs (hashed, pair). AList.update hashed pair pairs) acc es)
     = map_of acc ++ map_of (rev es)"
proof (induction es arbitrary: acc)
  case Nil
  then show ?case by simp
next
  case (Cons e es)
  obtain hashed pair where e: "e = (hashed, pair)" by (cases e)
  show ?case unfolding e
    by (rule ext) (simp add: Cons.IH update_conv' map_add_def split: option.splits)
qed

lemma map_of_rev_last:
  assumes "i < length es" "fst (es ! i) \<notin> fst ` set (drop (Suc i) es)"
  shows "map_of (rev es) (fst (es ! i)) = Some (snd (es ! i))"
proof -
  have es: "es = take i es @ es ! i # drop (Suc i) es"
    using assms(1) by (rule id_take_nth_drop)
  have none: "map_of (rev (drop (Suc i) es)) (fst (es ! i)) = None"
    using assms(2) by (simp add: map_of_eq_None_iff)
  have "map_of (rev es) (fst (es ! i))
          = map_of (rev (drop (Suc i) es) @ es ! i # rev (take i es)) (fst (es ! i))"
    by (subst es) simp
  also have "\<dots> = Some (snd (es ! i))"
    using none by (cases "es ! i") (simp add: map_add_def)
  finally show ?thesis .
qed

text \<open>
  C2. With the \<open>HashKey\<close> methods as the spec has them (\<open>Hashable hk\<close>), and for an index
  that is an object: indexing a hash with an integer, string or boolean returns the value
  stored under the index's hash key and the \<open>NULL\<close> object when there is none; indexing
  with any other kind of object returns the \<open>Error\<close> "unusable as hash key: T".
  A hash literal whose keys evaluate to Hashable objects, and whose keys and values are
  no \<open>Error\<close>, evaluates to a new \<open>Hash\<close>: its pairs are assigned in the order of the
  evaluation, so that under each hash key it holds the pair that was evaluated last with
  that hash key, and every pair that no later pair shares its hash key with.
  \<open>{"a": 1}["a"]\<close> evaluates to the integer 1, and \<open>{"a": 1}["b"]\<close> to \<open>Null\<close> when the two
  strings have different hash keys.
\<close>

theorem hash_index:
  "(Hashable hk \<and> deref h a = Some (Hash pairs) \<and> deref h i = Some ob \<longrightarrow>
      evalIndexExpression hk (Some a) (Some i) h = evalHashIndexExpression hk (Some a) (Some i) h
      \<and> (Type_of ob \<in> {''INTEGER'', ''STRING'', ''BOOLEAN''} \<longrightarrow>
           (\<exists>key. hk ob = Some key
              \<and> (\<forall>k v. map_of pairs key = Some (k, v) \<longrightarrow>
                    evalHashIndexExpression hk (Some a) (Some i) h = Inr (v, h))
              \<and> (map_of pairs key = None \<longrightarrow>
                    evalHashIndexExpression hk (Some a) (Some i) h = Inr (Some NULL, h))))
      \<and> (Type_of ob \<notin> {''INTEGER'', ''STRING'', ''BOOLEAN''} \<longrightarrow>
           evalHashIndexExpression hk (Some a) (Some i) h
             = Inr (newError (''unusable as hash key: '' @ Type_of ob) h)))
   \<and> (evaluated_pairs hk (Eval hk n env) ps h = Some (es, h') \<longrightarrow>
        Eval hk (Suc n) env (HashLiteral ps) h
          = Some (Inr (alloc (Hash (foldl (\<lambda>pairs (hashed, pair). AList.update hashed pair pairs)
                                      [] es)) h'))
        \<and> map_of (foldl (\<lambda>pairs (hashed, pair). AList.update hashed pair pairs) [] es)
            = map_of (rev es)
        \<and> (\<forall>j < length es. fst (es ! j) \<notin> fst ` set (drop (Suc j) es) \<longrightarrow>
              map_of (foldl (\<lambda>pairs (hashed, pair). AList.update hashed pair pairs) [] es)
                (fst (es ! j)) = Some (snd (es ! j))))
   \<and> (Hashable hk \<longrightarrow>
        result_object (Eval hk 3 0
            (IndexExpression (HashLiteral [(StringLiteral ''a'', IntegerLiteral 1)])
               (StringLiteral ''a'')) (snd New_Interpreter)) = Some (Inr (Some (Integer 1))))
   \<and> (Hashable hk \<and> hk (String ''b'') \<noteq> hk (String ''a'') \<longrightarrow>
        result_object (Eval hk 3 0
            (IndexExpression (HashLiteral [(StringLiteral ''a'', IntegerLiteral 1)])
               (StringLiteral ''b'')) (snd New_Interpreter)) = Some (Inr (Some Null)))"
proof -
  have idx: "evalIndexExpression hk (Some a) (Some i) h
               = evalHashIndexExpression hk (Some a) (Some i) h"
    if "deref h a = Some (Hash pairs)"
    using that by (simp add: evalIndexExpression_def withType_def ObjectType_def)
  have hit: "\<exists>key. hk ob = Some key
              \<and> (\<forall>k v. map_of pairs key = Some (k, v) \<longrightarrow>
                    evalHashIndexExpression hk (Some a) (Some i) h = Inr (v, h))
              \<and> (map_of pairs key = None \<longrightarrow>
                    evalHashIndexExpression hk (Some a) (Some i) h = Inr (Some NULL, h))"
    if "Hashable hk" "deref h a = Some (Hash pairs)" "deref h i = Some ob"
       "Type_of ob \<in> {''INTEGER'', ''STRING'', ''BOOLEAN''}"
  proof -
    from Hashable_D(1)[OF that(1,4)] obtain key where k: "hk ob = Some key" by blast
    show ?thesis using that(2,3) k
      by (auto simp: evalHashIndexExpression_def asHashable_def)
  qed
  have miss: "evalHashIndexExpression hk (Some a) (Some i) h
             = Inr (newError (''unusable as hash key: '' @ Type_of ob) h)"
    if "Hashable hk" "deref h a = Some (Hash pairs)" "deref h i = Some ob"
       "Type_of ob \<notin> {''INTEGER'', ''STRING'', ''BOOLEAN''}"
    using that(2,3) Hashable_D(2)[OF that(1,4)]
    by (simp add: evalHashIndexExpression_def asHashable_def withType_def ObjectType_def)
  have lit: "Eval hk (Suc n) env (HashLiteral ps) h
          = Some (Inr (alloc (Hash (foldl (\<lambda>pairs (hashed, pair). AList.update hashed pair pairs)
                                      [] es)) h'))"
    if "evaluated_pairs hk (Eval hk n env) ps h = Some (es, h')"
    using evalHashLiteral_evaluated_pairs[OF that, of "[]"] by simp
  have fin: "map_of (foldl (\<lambda>pairs (hashed, pair). AList.update hashed pair pairs) [] es)
            = map_of (rev es)"
    by (simp add: map_of_assigned)
  have last: "\<forall>j < length es. fst (es ! j) \<notin> fst ` set (drop (Suc j) es) \<longrightarrow>
              map_of (foldl (\<lambda>pairs (hashed, pair). AList.update hashed pair pairs) [] es)
                (fst (es ! j)) = Some (snd (es ! j))"
    unfolding fin using map_of_rev_last by blast
  have ex1: "result_object (Eval hk 3 0
            (IndexExpression (HashLiteral [(StringLiteral ''a'', IntegerLiteral 1)])
               (StringLiteral ''a'')) (snd New_Interpreter)) = Some (Inr (Some (Integer 1)))"
    if "Hashable hk"
  proof -
    from Hashable_D(1)[OF that, of "String ''a''"] obtain k where "hk (String ''a'') = Some k"
      by auto
    then show ?thesis by (simp add: run_defs)
  qed
  have ex2: "result_object (Eval hk 3 0
            (IndexExpression (HashLiteral [(StringLiteral ''a'', IntegerLiteral 1)])
               (StringLiteral ''b'')) (snd New_Interpreter)) = Some (Inr (Some Null))"
    if "Hashable hk" "hk (String ''b'') \<noteq> hk (String ''a'')"
  proof -
    from Hashable_D(1)[OF that(1), of "String ''a''"] obtain k where k: "hk (String ''a'') = Some k"
      by auto
    from Hashable_D(1)[OF that(1), of "String ''b''"] obtain k' where k': "hk (String ''b'') = Some k'"
      by auto
    have "k' \<noteq> k" using that(2) k k' by simp
    then show ?thesis using k k' by (simp add: run_defs)
  qed
  show ?thesis using idx hit miss lit fin last ex1 ex2 by blast
qed

lemma example_HashKey_Hashable: "Hashable example_HashKey"
  unfolding Hashable_def
proof
  fix ob show "(example_HashKey ob \<noteq> None) = (Type_of ob \<in> {''INTEGER'', ''STRING'', ''BOOLEAN''})"
    by (cases ob) (simp_all add: example_HashKey_def)
qed

text \<open>
  The hypotheses of C2 with the example's hash keys: the hash \<open>{"a": 1}\<close> of the example
  heap indexed by \<open>"a"\<close>, by \<open>""\<close> and by an array, and the literal
  \<open>{"a": 1, "b": 2, "a": 3}\<close>, whose pairs are evaluated in this order: the hash holds
  \<open>"a": 3\<close> and \<open>"b": 2\<close>.
\<close>

theorem hash_index_witness:
  "deref example_heap 19 = Some (Hash [(HashKey ''STRING'' 97, Some 15, Some 9)])
   \<and> deref example_heap 15 = Some (String ''a'') \<and> deref example_heap 17 = Some (String [])
   \<and> deref example_heap 12 = Some (Array [Some 9, Some 10, Some 11])
   \<and> evalHashIndexExpression example_HashKey (Some 19) (Some 15) example_heap
        = Inr (Some 9, example_heap)
   \<and> evalHashIndexExpression example_HashKey (Some 19) (Some 17) example_heap
        = Inr (Some NULL, example_heap)
   \<and> evalHashIndexExpression example_HashKey (Some 19) (Some 12) example_heap
        = Inr (newError ''unusable as hash key: ARRAY'' example_heap)
   \<and> map_option fst (evaluated_pairs example_HashKey (Eval example_HashKey 1 0)
          [(StringLiteral ''a'', IntegerLiteral 1), (StringLiteral ''b'', IntegerLiteral 2),
           (StringLiteral ''a'', IntegerLiteral 3)] (snd New_Interpreter))
        = Some [(HashKey ''STRING'' 97, Some 9, Some 10), (HashKey ''STRING'' 98, Some 11, Some 12),
                (HashKey ''STRING'' 97, Some 13, Some 14)]
   \<and> result_object (Eval example_HashKey 2 0
          (HashLiteral [(StringLiteral ''a'', IntegerLiteral 1), (StringLiteral ''b'', IntegerLiteral 2),
                        (StringLiteral ''a'', IntegerLiteral 3)]) (snd New_Interpreter))
        = Some (Inr (Some (Hash [(HashKey ''STRING'' 97, Some 13, Some 14),
                                 (HashKey ''STRING'' 98, Some 11, Some 12)])))
   \<and> result_object (Eval example_HashKey 3 0
            (IndexExpression (HashLiteral [(StringLiteral ''a'', IntegerLiteral 1)])
               (StringLiteral ''a'')) (snd New_Interpreter)) = Some (Inr (Some (Integer 1)))
   \<and> result_object (Eval example_HashKey 3 0
            (IndexExpression (HashLiteral [(StringLiteral ''a'', IntegerLiteral 1)])
               (StringLiteral ''b'')) (snd New_Interpreter)) = Some (Inr (Some Null))"
proof -
  have d: "deref example_heap 19 = Some (Hash [(HashKey ''STRING'' 97, Some 15, Some 9)])"
     "deref example_heap 15 = Some (String ''a'')" "deref example_heap 17 = Some (String [])"
     "deref example_heap 12 = Some (Array [Some 9, Some 10, Some 11])"
    by (simp_all add: deref_def example_heap_def package_objects_def)
  have k: "example_HashKey (String ''a'') = Some (HashKey ''STRING'' 97)"
     "example_HashKey (String []) = Some (HashKey ''STRING'' 0)"
     "example_HashKey (String ''b'') = Some (HashKey ''STRING'' 98)"
    by (simp_all add: example_HashKey_def)
  note H = example_HashKey_Hashable
  define h' where "h' = \<lparr>objects = package_objects @
      [String ''a'', Integer 1, String ''b'', Integer 2, String ''a'', Integer 3],
      environments = [\<lparr>store = Map.empty, outer = None\<rparr>]\<rparr>"
  have ep: "evaluated_pairs example_HashKey (Eval example_HashKey 1 0)
          [(StringLiteral ''a'', IntegerLiteral 1), (StringLiteral ''b'', IntegerLiteral 2),
           (StringLiteral ''a'', IntegerLiteral 3)] (snd New_Interpreter)
        = Some ([(HashKey ''STRING'' 97, Some 9, Some 10), (HashKey ''STRING'' 98, Some 11, Some 12),
                 (HashKey ''STRING'' 97, Some 13, Some 14)], h')"
    by (simp add: run_defs k h'_def)
  have lit: "Eval example_HashKey (Suc 1) 0
          (HashLiteral [(StringLiteral ''a'', IntegerLiteral 1), (StringLiteral ''b'', IntegerLiteral 2),
                        (StringLiteral ''a'', IntegerLiteral 3)]) (snd New_Interpreter)
        = Some (Inr (alloc (Hash (foldl (\<lambda>pairs (hashed, pair). AList.update hashed pair pairs) []
             [(HashKey ''STRING'' 97, Some 9, Some 10), (HashKey ''STRING'' 98, Some 11, Some 12),
              (HashKey ''STRING'' 97, Some 13, Some 14)])) h'))"
    using hash_index[where hk=example_HashKey and h="snd New_Interpreter" and n=1 and env=0
         and h'=h' and ps="[(StringLiteral ''a'', IntegerLiteral 1),
           (StringLiteral ''b'', IntegerLiteral 2), (StringLiteral ''a'', IntegerLiteral 3)]"
         and es="[(HashKey ''STRING'' 97, Some 9, Some 10), (HashKey ''STRING'' 98, Some 11, Some 12),
                 (HashKey ''STRING'' 97, Some 13, Some 14)]"] ep
    by blast
  have lit': "result_object (Eval example_HashKey 2 0
          (HashLiteral [(StringLiteral ''a'', IntegerLiteral 1), (StringLiteral ''b'', IntegerLiteral 2),
                        (StringLiteral ''a'', IntegerLiteral 3)]) (snd New_Interpreter))
        = Some (Inr (Some (Hash [(HashKey ''STRING'' 97, Some 13, Some 14),
                                 (HashKey ''STRING'' 98, Some 11, Some 12)])))"
    using lit unfolding Suc_1
    by (simp add: result_object_def alloc_def deref_def h'_def package_objects_def nth_append)
  from hash_index[where hk=example_HashKey and h=example_heap and a=19 and i=15
         and ob="String ''a''" and pairs="[(HashKey ''STRING'' 97, Some 15, Some 9)]"]
       hash_index[where hk=example_HashKey and h=example_heap and a=19 and i=17
         and ob="String []" and pairs="[(HashKey ''STRING'' 97, Some 15, Some 9)]"]
       hash_index[where hk=example_HashKey and h=example_heap and a=19 and i=12
         and ob="Array [Some 9, Some 10, Some 11]"
         and pairs="[(HashKey ''STRING'' 97, Some 15, Some 9)]"]
       d k H
  have "evalHashIndexExpression example_HashKey (Some 19) (Some 15) example_heap
        = Inr (Some 9, example_heap)
   \<and> evalHashIndexExpression example_HashKey (Some 19) (Some 17) example_heap
        = Inr (Some NULL, example_heap)
   \<and> evalHashIndexExpression example_HashKey (Some 19) (Some 12) example_heap
        = Inr (newError ''unusable as hash key: ARRAY'' example_heap)
   \<and> result_object (Eval example_HashKey 3 0
            (IndexExpression (HashLiteral [(StringLiteral ''a'', IntegerLiteral 1)])
               (StringLiteral ''a'')) (snd New_Interpreter)) = Some (Inr (Some (Integer 1)))
   \<and> result_object (Eval example_HashKey 3 0
            (IndexExpression (HashLiteral [(StringLiteral ''a'', IntegerLiteral 1)])
               (StringLiteral ''b'')) (snd New_Interpreter)) = Some (Inr (Some Null))"
    by simp
  then show ?thesis using d lit' ep by simp
qed

text \<open>
  C2, as it fails. The index of \<open>{"a": 1}[if (true) {}]\<close> has no value, and is not
  Hashable: the evaluation panics in \<open>index.Type()\<close> and returns no \<open>Error\<close>. In
  \<open>{"a": 1, "a": 2}\<close> the two keys are Hashable and have the same hash key: the hash
  holds the one pair that was evaluated last, and \<open>{"a": 1, "a": 2}["a"]\<close> is 2 with the
  pairs evaluated in this order.
\<close>

theorem hash_index_counterexample:
  "result_object (Eval example_HashKey 4 0
       (IndexExpression (HashLiteral [(StringLiteral ''a'', IntegerLiteral 1)])
          (IfExpression (BooleanLiteral True) [] None)) (snd New_Interpreter))
     = Some (Inl NilDereference)
   \<and> result_object (Eval example_HashKey 2 0
       (HashLiteral [(StringLiteral ''a'', IntegerLiteral 1), (StringLiteral ''a'', IntegerLiteral 2)])
       (snd New_Interpreter))
     = Some (Inr (Some (Hash [(HashKey ''STRING'' 97, Some 11, Some 12)])))
   \<and> result_object (Eval example_HashKey 3 0
       (IndexExpression
          (HashLiteral [(StringLiteral ''a'', IntegerLiteral 1), (StringLiteral ''a'', IntegerLiteral 2)])
          (StringLiteral ''a'')) (snd New_Interpreter))
     = Some (Inr (Some (Integer 2)))"
proof -
  have k: "example_HashKey (String ''a'') = Some (HashKey ''STRING'' 97)"
    by (simp add: example_HashKey_def)
  have c1: "result_object (Eval example_HashKey 4 0
       (IndexExpression (HashLiteral [(StringLiteral ''a'', IntegerLiteral 1)])
          (IfExpression (BooleanLiteral True) [] None)) (snd New_Interpreter))
     = Some (Inl NilDereference)"
    by (simp add: run_defs k)
  have c2: "result_object (Eval example_HashKey 2 0
       (HashLiteral [(StringLiteral ''a'', IntegerLiteral 1), (StringLiteral ''a'', IntegerLiteral 2)])
       (snd New_Interpreter))
     = Some (Inr (Some (Hash [(HashKey ''STRING'' 97, Some 11, Some 12)])))"
    by (simp add: run_defs k)
  have c3: "result_object (Eval example_HashKey 3 0
       (IndexExpression
          (HashLiteral [(StringLiteral ''a'', IntegerLiteral 1), (StringLiteral ''a'', IntegerLiteral 2)])
          (StringLiteral ''a'')) (snd New_Interpreter))
     = Some (Inr (Some (Integer 2)))"
    by (simp add: run_defs k)
  show ?thesis using c1 c2 c3 by simp
qed

subsection \<open>Statements and calls\<close>

lemma andThen_Inr_iff:
  "andThen m f = Some (Inr x) \<longleftrightarrow> (\<exists>v h. m = Some (Inr (v, h)) \<and> f v h = Some (Inr x))"
  by (auto simp: andThen_def split: option.splits sum.splits)

lemma block_head:
  assumes "evalBlockStatement ev (s # pre) r0 h = Some (Inr (r1, h1))" "\<not> is_signal h1 r1"
  shows "\<exists>r h'. ev s h = Some (Inr (r, h')) \<and> \<not> is_signal h' r
           \<and> (r = None \<or> (\<exists>t. ObjectType h' r = Inr t))
           \<and> evalBlockStatement ev pre r h' = Some (Inr (r1, h1))"
proof -
  from assms(1) obtain r h' where e: "ev s h = Some (Inr (r, h'))"
    and rest: "(if r \<noteq> None then
         (case ObjectType h' r of
            Inl p \<Rightarrow> Some (Inl p)
          | Inr rt \<Rightarrow>
              if rt = ''RETURN_VALUE'' \<or> rt = ''ERROR'' then Some (Inr (r, h'))
              else evalBlockStatement ev pre r h')
       else evalBlockStatement ev pre r h') = Some (Inr (r1, h1))"
    by (auto simp: andThen_Inr_iff)
  show ?thesis
  proof (cases "r = None")
    case True
    then show ?thesis using e rest by (simp add: is_signal_def)
  next
    case False
    then obtain t where t: "ObjectType h' r = Inr t"
      using rest by (auto split: sum.splits)
    have ns: "\<not> (t = ''RETURN_VALUE'' \<or> t = ''ERROR'')"
    proof
      assume a: "t = ''RETURN_VALUE'' \<or> t = ''ERROR''"
      then have "r1 = r \<and> h1 = h'" using rest False t by auto
      then show False using assms(2) False t a by (auto simp: is_signal_def)
    qed
    then show ?thesis using e rest False t by (auto simp: is_signal_def)
  qed
qed

lemma block_prefix:
  "evalBlockStatement ev pre r0 h = Some (Inr (r1, h1)) \<Longrightarrow> \<not> is_signal h1 r1 \<Longrightarrow>
   evalBlockStatement ev (pre @ ys) r0 h = evalBlockStatement ev ys r1 h1"
proof (induction pre arbitrary: r0 h)
  case Nil
  then show ?case by simp
next
  case (Cons s pre)
  from block_head[OF Cons.prems] obtain r h' where
    e: "ev s h = Some (Inr (r, h'))" and ns: "\<not> is_signal h' r"
    and ty: "r = None \<or> (\<exists>t. ObjectType h' r = Inr t)"
    and rest: "evalBlockStatement ev pre r h' = Some (Inr (r1, h1))" by blast
  have "evalBlockStatement ev ((s # pre) @ ys) r0 h = evalBlockStatement ev (pre @ ys) r h'"
    using e ns ty by (auto simp: is_signal_def)
  then show ?case using Cons.IH[OF rest Cons.prems(2)] by simp
qed

lemma not_signal_object:
  "\<not> is_signal h (Some a) \<Longrightarrow> deref h a = Some ob \<Longrightarrow>
   (\<forall>v. ob \<noteq> ReturnValue v) \<and> (\<forall>m. ob \<noteq> Error m)"
  by (auto simp: is_signal_def ObjectType_def)

lemma program_prefix:
  "evalBlockStatement ev pre r0 h = Some (Inr (r1, h1)) \<Longrightarrow> \<not> is_signal h1 r1 \<Longrightarrow>
   evalProgram ev (pre @ ys) r0 h = evalProgram ev ys r1 h1"
proof (induction pre arbitrary: r0 h)
  case Nil
  then show ?case by simp
next
  case (Cons s pre)
  from block_head[OF Cons.prems] obtain r h' where
    e: "ev s h = Some (Inr (r, h'))" and ns: "\<not> is_signal h' r"
    and ty: "r = None \<or> (\<exists>t. ObjectType h' r = Inr t)"
    and rest: "evalBlockStatement ev pre r h' = Some (Inr (r1, h1))" by blast
  have "evalProgram ev ((s # pre) @ ys) r0 h = evalProgram ev (pre @ ys) r h'"
  proof (cases r)
    case None
    then show ?thesis using e by simp
  next
    case (Some a)
    show ?thesis
    proof (cases "deref h' a")
      case None
      then show ?thesis using e Some by simp
    next
      case (Some ob)
      with not_signal_object[of h' a ob] ns \<open>r = Some a\<close>
      have "(\<forall>v. ob \<noteq> ReturnValue v) \<and> (\<forall>m. ob \<noteq> Error m)" by simp
      then show ?thesis using e Some \<open>r = Some a\<close> by (cases ob) simp_all
    qed
  qed
  then show ?case using Cons.IH[OF rest Cons.prems(2)] by simp
qed

text \<open>
  C4, as the code has it. Statements are evaluated in order, each in the heap that the
  one before left. When the statements before \<open>s\<close> gave no signal and \<open>s\<close> gives one, the
  statements after \<open>s\<close> are not evaluated: a block returns the signal as it is, an
  \<open>Error\<close> or a \<open>ReturnValue\<close>; a program returns an \<open>Error\<close> as it is and, for a
  \<open>ReturnValue\<close>, the object that it carries. The application of a function returns the
  result of the body with one \<open>ReturnValue\<close> wrapper taken off, and unchanged when it is
  none.
\<close>

theorem signals_abort:
  "(evalBlockStatement ev pre None h = Some (Inr (r1, h1)) \<and> \<not> is_signal h1 r1
      \<and> ev s h1 = Some (Inr (r, h2)) \<longrightarrow>
      (is_signal h2 r \<longrightarrow> evalBlockStatement ev (pre @ s # post) None h = Some (Inr (r, h2)))
      \<and> (\<forall>a m. r = Some a \<and> deref h2 a = Some (Error m) \<longrightarrow>
            evalProgram ev (pre @ s # post) None h = Some (Inr (r, h2)))
      \<and> (\<forall>a v. r = Some a \<and> deref h2 a = Some (ReturnValue v) \<longrightarrow>
            evalProgram ev (pre @ s # post) None h = Some (Inr (v, h2))))
   \<and> (deref h f = Some (Function parameters body fnEnv)
        \<and> extendFunctionEnv parameters fnEnv args h = Inr (extendedEnv, h')
        \<and> ev (BlockStatement body) h' = Some (Inr (r, h2)) \<longrightarrow>
        applyFunction ev (Some f) args h = Some (Inr (unwrapReturnValue h2 r, h2))
        \<and> (\<forall>a v. r = Some a \<and> deref h2 a = Some (ReturnValue v) \<longrightarrow>
              unwrapReturnValue h2 r = v)
        \<and> ((\<forall>a v. r = Some a \<longrightarrow> deref h2 a \<noteq> Some (ReturnValue v)) \<longrightarrow>
              unwrapReturnValue h2 r = r))"
proof -
  have blk: "evalBlockStatement ev (pre @ s # post) None h = Some (Inr (r, h2))"
    if "evalBlockStatement ev pre None h = Some (Inr (r1, h1))" "\<not> is_signal h1 r1"
       "ev s h1 = Some (Inr (r, h2))" "is_signal h2 r"
    using that(3,4) unfolding block_prefix[OF that(1,2)]
    by (auto simp: is_signal_def)
  have prg_err: "evalProgram ev (pre @ s # post) None h = Some (Inr (r, h2))"
    if "evalBlockStatement ev pre None h = Some (Inr (r1, h1))" "\<not> is_signal h1 r1"
       "ev s h1 = Some (Inr (r, h2))" "r = Some a" "deref h2 a = Some (Error m)" for a m
    using that(3,4,5) unfolding program_prefix[OF that(1,2)] by simp
  have prg_ret: "evalProgram ev (pre @ s # post) None h = Some (Inr (v, h2))"
    if "evalBlockStatement ev pre None h = Some (Inr (r1, h1))" "\<not> is_signal h1 r1"
       "ev s h1 = Some (Inr (r, h2))" "r = Some a" "deref h2 a = Some (ReturnValue v)" for a v
    using that(3,4,5) unfolding program_prefix[OF that(1,2)] by simp
  have app: "applyFunction ev (Some f) args h = Some (Inr (unwrapReturnValue h2 r, h2))"
    if "deref h f = Some (Function parameters body fnEnv)"
       "extendFunctionEnv parameters fnEnv args h = Inr (extendedEnv, h')"
       "ev (BlockStatement body) h' = Some (Inr (r, h2))"
    using that by (simp add: applyFunction_def)
  have un1: "unwrapReturnValue h2 r = v" if "r = Some a" "deref h2 a = Some (ReturnValue v)" for a v
    using that by (simp add: unwrapReturnValue_def)
  have un2: "unwrapReturnValue h2 r = r" if "\<forall>a v. r = Some a \<longrightarrow> deref h2 a \<noteq> Some (ReturnValue v)"
    using that by (auto simp: unwrapReturnValue_def split: option.splits object.splits)
  show ?thesis using blk prg_err prg_ret app un1 un2 by blast
qed


text \<open>
  The hypotheses of C4 on the example heap: the statements \<open>1; return 7; 9\<close> as a block
  and as a program, the statements \<open>1; nope; 9\<close> as a program, and the calls of
  \<open>fn() { return 7 }\<close> and of \<open>fn() { 8 }\<close>.
\<close>

theorem signals_abort_witness:
  "result_object (evalBlockStatement (Eval example_HashKey 2 0)
       ([ExpressionStatement (IntegerLiteral 1)] @ ReturnStatement (IntegerLiteral 7)
          # [ExpressionStatement (IntegerLiteral 9)]) None example_heap)
     = Some (Inr (Some (ReturnValue (Some 21))))
   \<and> result_object (evalProgram (Eval example_HashKey 2 0)
       ([ExpressionStatement (IntegerLiteral 1)] @ ReturnStatement (IntegerLiteral 7)
          # [ExpressionStatement (IntegerLiteral 9)]) None example_heap)
     = Some (Inr (Some (Integer 7)))
   \<and> result_object (evalProgram (Eval example_HashKey 2 0)
       ([ExpressionStatement (IntegerLiteral 1)] @ Identifier ''nope''
          # [ExpressionStatement (IntegerLiteral 9)]) None example_heap)
     = Some (Inr (Some (Error ''identifier not found: nope'')))
   \<and> result_object (applyFunction (Eval example_HashKey 3 0) (Some 20) []
       (snd (alloc (Function [] [ReturnStatement (IntegerLiteral 7)] 0) example_heap)))
     = Some (Inr (Some (Integer 7)))
   \<and> result_object (applyFunction (Eval example_HashKey 3 0) (Some 20) []
       (snd (alloc (Function [] [ExpressionStatement (IntegerLiteral 8)] 0) example_heap)))
     = Some (Inr (Some (Integer 8)))"
proof -
  define h1 where "h1 = snd (alloc (Integer 1) example_heap)"
  define h2 where "h2 = snd (alloc (ReturnValue (Some 21)) (snd (alloc (Integer 7) h1)))"
  define h3 where "h3 = snd (newError ''identifier not found: nope'' h1)"
  define hf where "hf = snd (alloc (Function [] [ReturnStatement (IntegerLiteral 7)] 0) example_heap)"
  define hf' where "hf' = snd (NewEnvironment (Some 0) hf)"
  define hf2 where "hf2 = snd (alloc (ReturnValue (Some 21)) (snd (alloc (Integer 7) hf')))"
  define hg where "hg = snd (alloc (Function [] [ExpressionStatement (IntegerLiteral 8)] 0) example_heap)"
  define hg' where "hg' = snd (NewEnvironment (Some 0) hg)"
  define hg2 where "hg2 = snd (alloc (Integer 8) hg')"
  note hs = h1_def h2_def h3_def hf_def hf'_def hf2_def hg_def hg'_def hg2_def example_heap_def
  have pre: "evalBlockStatement (Eval example_HashKey 2 0) [ExpressionStatement (IntegerLiteral 1)]
               None example_heap = Some (Inr (Some 20, h1))"
    by (simp add: run_defs hs)
  have ns: "\<not> is_signal h1 (Some 20)"
    by (simp add: is_signal_def run_defs hs)
  have s1: "Eval example_HashKey 2 0 (ReturnStatement (IntegerLiteral 7)) h1 = Some (Inr (Some 22, h2))"
    by (simp add: run_defs hs)
  have sg1: "is_signal h2 (Some 22)" "deref h2 22 = Some (ReturnValue (Some 21))"
    "deref h2 21 = Some (Integer 7)"
    by (simp_all add: is_signal_def run_defs hs)
  have s2: "Eval example_HashKey 2 0 (Identifier ''nope'') h1 = Some (Inr (Some 21, h3))"
    by (simp add: run_defs hs)
  have sg2: "deref h3 21 = Some (Error ''identifier not found: nope'')"
    by (simp add: run_defs hs)
  have f1: "deref hf 20 = Some (Function [] [ReturnStatement (IntegerLiteral 7)] 0)"
    by (simp add: run_defs hs)
  have f2: "extendFunctionEnv [] 0 [] hf = Inr (1, hf')"
    by (simp add: run_defs hs)
  have f3: "Eval example_HashKey 3 0 (BlockStatement [ReturnStatement (IntegerLiteral 7)]) hf'
              = Some (Inr (Some 22, hf2))"
    by (simp add: run_defs hs)
  have f4: "deref hf2 22 = Some (ReturnValue (Some 21))" "deref hf2 21 = Some (Integer 7)"
    by (simp_all add: run_defs hs)
  have g1: "deref hg 20 = Some (Function [] [ExpressionStatement (IntegerLiteral 8)] 0)"
    by (simp add: run_defs hs)
  have g2: "extendFunctionEnv [] 0 [] hg = Inr (1, hg')"
    by (simp add: run_defs hs)
  have g3: "Eval example_HashKey 3 0 (BlockStatement [ExpressionStatement (IntegerLiteral 8)]) hg'
              = Some (Inr (Some 21, hg2))"
    by (simp add: run_defs hs)
  have g4: "deref hg2 21 = Some (Integer 8)"
    by (simp add: run_defs hs)
  from signals_abort[where ev="Eval example_HashKey 3 0" and h=hg and f=20 and parameters="[]"
         and body="[ExpressionStatement (IntegerLiteral 8)]" and fnEnv=0 and args="[]"
         and extendedEnv=1 and h'=hg' and r="Some 21" and ?h2.0=hg2] g1 g2 g3 g4
  have g: "result_object (applyFunction (Eval example_HashKey 3 0) (Some 20) [] hg)
             = Some (Inr (Some (Integer 8)))"
    by (simp add: result_object_def)
  from signals_abort[where ev="Eval example_HashKey 2 0" and h=example_heap
         and pre="[ExpressionStatement (IntegerLiteral 1)]" and ?r1.0="Some 20" and ?h1.0=h1
         and s="ReturnStatement (IntegerLiteral 7)" and r="Some 22" and ?h2.0=h2
         and post="[ExpressionStatement (IntegerLiteral 9)]"]
       signals_abort[where ev="Eval example_HashKey 2 0" and h=example_heap
         and pre="[ExpressionStatement (IntegerLiteral 1)]" and ?r1.0="Some 20" and ?h1.0=h1
         and s="Identifier ''nope''" and r="Some 21" and ?h2.0=h3
         and post="[ExpressionStatement (IntegerLiteral 9)]"]
       signals_abort[where ev="Eval example_HashKey 3 0" and h=hf and f=20 and parameters="[]"
         and body="[ReturnStatement (IntegerLiteral 7)]" and fnEnv=0 and args="[]"
         and extendedEnv=1 and h'=hf' and r="Some 22" and ?h2.0=hf2]
       pre ns s1 sg1 s2 sg2 f1 f2 f3 f4 g
  show ?thesis unfolding hf_def[symmetric] hg_def[symmetric] by (simp add: result_object_def)
qed

text \<open>
  C4 as stated fails. The program \<open>return 5; 6\<close> does not return the \<open>ReturnValue\<close> as
  it is, but the integer 5. And a raw \<open>ReturnValue\<close> escapes both from the program
  \<open>return if (true) { return 5 };\<close> and from the call \<open>fn() { return if (true) { return 5 }; }()\<close>:
  the inner \<open>ReturnValue\<close> is the value of the if expression and is wrapped again, and
  only the outer wrapper is taken off.
\<close>

theorem signals_abort_counterexample:
  "result_object (Eval example_HashKey 3 0
       (Program [ReturnStatement (IntegerLiteral 5), ExpressionStatement (IntegerLiteral 6)])
       (snd New_Interpreter)) = Some (Inr (Some (Integer 5)))
   \<and> result_object (Eval example_HashKey 6 0 (Program [nested_return]) (snd New_Interpreter))
       = Some (Inr (Some (ReturnValue (Some 9))))
   \<and> result_object (Eval example_HashKey 7 0
       (CallExpression (FunctionLiteral [] [nested_return]) []) (snd New_Interpreter))
       = Some (Inr (Some (ReturnValue (Some 10))))"
  by (simp add: run_defs nested_return_def)

text \<open>
  The call of a function, in general. When there are enough arguments and the parameters
  have different names, \<open>extendFunctionEnv\<close> makes a new environment whose outer link is
  the environment that the function captured and which binds every parameter to the
  argument at its position. The first interpreter evaluates the body in this new
  environment. The golemjs interpreter evaluates the body with \<open>i.Eval\<close>, whose
  environment is the one of the interpreter: the new environment is left unused.
\<close>

lemma extendFunctionEnv_loop_binds:
  "env < length (environments h) \<Longrightarrow> i + length ps \<le> length args \<Longrightarrow> distinct ps \<Longrightarrow>
   \<exists>h'. extendFunctionEnv_loop env ps i args h = Inr h'
     \<and> objects h' = objects h
     \<and> length (environments h') = length (environments h)
     \<and> take env (environments h') = take env (environments h)
     \<and> outer (environments h' ! env) = outer (environments h ! env)
     \<and> (\<forall>j < length ps. store (environments h' ! env) (ps ! j) = Some (args ! (i + j)))
     \<and> (\<forall>name. name \<notin> set ps \<longrightarrow>
           store (environments h' ! env) name = store (environments h ! env) name)"
proof (induction ps arbitrary: i h)
  case Nil
  then show ?case by simp
next
  case (Cons p ps)
  define h1 where "h1 = h\<lparr>environments := (environments h)
      [env := (environments h ! env)\<lparr>store := (store (environments h ! env))(p \<mapsto> args ! i)\<rparr>]\<rparr>"
  have s: "Set env p (args ! i) h = Inr (args ! i, h1)"
    using Cons.prems(1) by (simp add: Set_def h1_def)
  have e1: "env < length (environments h1)" using Cons.prems(1) by (simp add: h1_def)
  have st1: "store (environments h1 ! env) = (store (environments h ! env))(p \<mapsto> args ! i)"
    "outer (environments h1 ! env) = outer (environments h ! env)"
    "objects h1 = objects h" "length (environments h1) = length (environments h)"
    "take env (environments h1) = take env (environments h)"
    using Cons.prems(1) by (simp_all add: h1_def)
  from Cons.IH[OF e1, of "i + 1"] Cons.prems(2,3) obtain h' where
    l: "extendFunctionEnv_loop env ps (i + 1) args h1 = Inr h'"
    and o: "objects h' = objects h1" "length (environments h') = length (environments h1)"
       "take env (environments h') = take env (environments h1)"
       "outer (environments h' ! env) = outer (environments h1 ! env)"
    and b: "\<And>j. j < length ps \<Longrightarrow> store (environments h' ! env) (ps ! j) = Some (args ! (i + 1 + j))"
    and k: "\<And>name. name \<notin> set ps \<Longrightarrow>
           store (environments h' ! env) name = store (environments h1 ! env) name"
    by auto
  have run: "extendFunctionEnv_loop env (p # ps) i args h = Inr h'"
    using s l Cons.prems(2) by simp
  have bind: "store (environments h' ! env) ((p # ps) ! j) = Some (args ! (i + j))"
    if "j < length (p # ps)" for j
  proof (cases j)
    case 0
    then show ?thesis using k[of p] Cons.prems(3) st1(1) by simp
  next
    case (Suc m)
    then show ?thesis using b[of m] that by simp
  qed
  have keep: "store (environments h' ! env) name = store (environments h ! env) name"
    if "name \<notin> set (p # ps)" for name
    using k[of name] that st1(1) by simp
  show ?case using run o st1 bind keep by auto
qed

lemma extendFunctionEnv_binds:
  assumes "length parameters \<le> length args" "distinct parameters"
  shows "\<exists>h'. extendFunctionEnv parameters fnEnv args h = Inr (length (environments h), h')
     \<and> objects h' = objects h
     \<and> take (length (environments h)) (environments h') = environments h
     \<and> outer (environments h' ! length (environments h)) = Some fnEnv
     \<and> (\<forall>j < length parameters.
           store (environments h' ! length (environments h)) (parameters ! j) = Some (args ! j))
     \<and> (\<forall>name. name \<notin> set parameters \<longrightarrow>
           store (environments h' ! length (environments h)) name = None)"
proof -
  define h0 where "h0 = snd (NewEnvironment (Some fnEnv) h)"
  have e: "length (environments h) < length (environments h0)"
    by (simp add: h0_def NewEnvironment_def)
  from extendFunctionEnv_loop_binds[OF e, of 0 parameters args] assms obtain h' where
    "extendFunctionEnv_loop (length (environments h)) parameters 0 args h0 = Inr h'"
    "objects h' = objects h0"
    "take (length (environments h)) (environments h')
       = take (length (environments h)) (environments h0)"
    "outer (environments h' ! length (environments h))
       = outer (environments h0 ! length (environments h))"
    "\<And>j. j < length parameters \<Longrightarrow>
       store (environments h' ! length (environments h)) (parameters ! j) = Some (args ! j)"
    "\<And>name. name \<notin> set parameters \<Longrightarrow>
       store (environments h' ! length (environments h)) name
         = store (environments h0 ! length (environments h)) name"
    by auto
  then show ?thesis
    by (auto simp: extendFunctionEnv_def h0_def NewEnvironment_def)
qed

lemma internal_applyFunction_environment:
  assumes "deref h f = Some (Function parameters body fnEnv)"
    "length parameters \<le> length args" "distinct parameters"
  shows "\<exists>h'. extendFunctionEnv parameters fnEnv args h = Inr (length (environments h), h')
     \<and> outer (environments h' ! length (environments h)) = Some fnEnv
     \<and> (\<forall>j < length parameters.
           store (environments h' ! length (environments h)) (parameters ! j) = Some (args ! j))
     \<and> internal_applyFunction ev (Some f) args h
         = andThen (ev (length (environments h)) (BlockStatement body) h') (\<lambda>evaluated h.
             Some (Inr (unwrapReturnValue h evaluated, h)))
     \<and> applyFunction ev0 (Some f) args h
         = andThen (ev0 (BlockStatement body) h') (\<lambda>evaluated h.
             Some (Inr (unwrapReturnValue h evaluated, h)))"
proof -
  from extendFunctionEnv_binds[OF assms(2,3), of fnEnv h] obtain h' where
    x: "extendFunctionEnv parameters fnEnv args h = Inr (length (environments h), h')"
    and o: "outer (environments h' ! length (environments h)) = Some fnEnv"
    and b: "\<forall>j < length parameters.
           store (environments h' ! length (environments h)) (parameters ! j) = Some (args ! j)"
    by blast
  show ?thesis using x o b assms(1)
    by (auto simp: internal_applyFunction_def applyFunction_def)
qed


text \<open>
  C1 at its closure program. The golemjs interpreter evaluates the body of a function in
  the interpreter's own environment (\<open>applyFunction\<close> builds the extended environment
  and calls \<open>i.Eval\<close>), so the parameter \<open>x\<close> is not found and the program evaluates to an
  \<open>Error\<close>. The first interpreter evaluates the body in the extended environment, and
  the program evaluates to the integer 8.
\<close>

theorem closure_program_results:
  "result_object (Eval hk 7 0 closure_program (snd New_Interpreter))
     = Some (Inr (Some (Error ''identifier not found: x'')))
   \<and> result_object (internal_Eval 7 0 closure_program (snd internal_New))
     = Some (Inr (Some (Integer 8)))"
  by (simp add: run_defs closure_program_def)

text \<open>
  Two missing checks. An array indexed with an object that is no integer panics in the
  type assertion, whatever the object; a function applied to fewer arguments than it has
  parameters panics in \<open>args[paramIdx]\<close>, in both interpreters.
\<close>

lemma evalIndexExpression_non_integer:
  "deref h a = Some (Array elements) \<Longrightarrow> deref h i = Some ob \<Longrightarrow> Type_of ob \<noteq> ''INTEGER'' \<Longrightarrow>
   evalIndexExpression hk (Some a) (Some i) h = Inl TypeAssertion"
  by (cases ob) (simp_all add: evalIndexExpression_def evalArrayIndexExpression_def withType_def
      ObjectType_def)

lemma extendFunctionEnv_loop_short:
  "env < length (environments h) \<Longrightarrow> i \<le> length args \<Longrightarrow> length args < i + length params \<Longrightarrow>
   extendFunctionEnv_loop env params i args h = Inl IndexOutOfRange"
proof (induction params arbitrary: i h)
  case Nil
  then show ?case by simp
next
  case (Cons p ps)
  show ?case
  proof (cases "i < length args")
    case True
    obtain h' where s: "Set env p (args ! i) h = Inr (args ! i, h')"
      and e: "env < length (environments h')"
      using Cons.prems(1) by (simp add: Set_def)
    have "extendFunctionEnv_loop env ps (i + 1) args h' = Inl IndexOutOfRange"
      using Cons.IH[OF e, of "i + 1"] True Cons.prems(3) by simp
    then show ?thesis using True s by simp
  next
    case False
    then show ?thesis by simp
  qed
qed

lemma extendFunctionEnv_short:
  "length args < length params \<Longrightarrow>
   extendFunctionEnv params fnEnv args h = Inl IndexOutOfRange"
  using extendFunctionEnv_loop_short[of "length (environments h)"
      "snd (NewEnvironment (Some fnEnv) h)" 0 args params]
  by (simp add: extendFunctionEnv_def NewEnvironment_def)

lemma applyFunction_short:
  "deref h f = Some (Function params body fnEnv) \<Longrightarrow> length args < length params \<Longrightarrow>
   applyFunction ev (Some f) args h = Some (Inl IndexOutOfRange)
   \<and> internal_applyFunction ev' (Some f) args h = Some (Inl IndexOutOfRange)"
  by (simp add: applyFunction_def internal_applyFunction_def extendFunctionEnv_short)


text \<open>
  C3 at its two examples. Indexing \<open>[1, 2, 3]\<close> with the string \<open>"a"\<close> panics in the type
  assertion \<open>index.(*Integer)\<close>, and calling \<open>fn(x, y) { x }\<close> with one argument panics
  in \<open>args[paramIdx]\<close>, in both interpreters: neither returns an \<open>Error\<close> object. So does
  an operator on an operand without a value: \<open>if (true) { } + "b"\<close> panics in
  \<open>left.Type()\<close>.
\<close>

theorem user_errors_that_panic:
  "result_object (Eval hk 3 0 (IndexExpression array_123 (StringLiteral ''a''))
       (snd New_Interpreter)) = Some (Inl TypeAssertion)
   \<and> result_object (Eval hk 3 0
       (CallExpression (FunctionLiteral [''x'', ''y''] [ExpressionStatement (Identifier ''x'')])
          [IntegerLiteral 1]) (snd New_Interpreter)) = Some (Inl IndexOutOfRange)
   \<and> result_object (internal_Eval 3 0
       (CallExpression (FunctionLiteral [''x'', ''y''] [ExpressionStatement (Identifier ''x'')])
          [IntegerLiteral 1]) (snd internal_New)) = Some (Inl IndexOutOfRange)
   \<and> result_object (Eval hk 4 0
       (InfixExpression (IfExpression (BooleanLiteral True) [] None) ''+'' (StringLiteral ''b''))
       (snd New_Interpreter)) = Some (Inl NilDereference)"
  by (simp add: run_defs array_123_def)




text \<open>
  \<open>puts\<close> returns the \<open>NULL\<close> object after \<open>puts(5, "a")\<close> and \<open>puts([1, 2, 3])\<close>.
  It panics in \<open>Inspect\<close> on an argument without a value, \<open>puts(if (true) {})\<close>, on an
  array that holds one, \<open>puts([1, if (true) {}])\<close>, and on the \<open>ReturnValue\<close> of a
  \<open>return\<close> without a value, \<open>puts(if (true) { return })\<close>.
\<close>

lemma puts_examples:
  "result_object (Eval hk 3 0 (CallExpression (Identifier ''puts'') [IntegerLiteral 5, StringLiteral ''a''])
      (snd New_Interpreter)) = Some (Inr (Some Null))
   \<and> result_object (Eval hk 3 0 (CallExpression (Identifier ''puts'') [array_123])
      (snd New_Interpreter)) = Some (Inr (Some Null))
   \<and> result_object (Eval hk 4 0
        (CallExpression (Identifier ''puts'') [IfExpression (BooleanLiteral True) [] None])
      (snd New_Interpreter)) = Some (Inl NilDereference)
   \<and> result_object (Eval hk 5 0
        (CallExpression (Identifier ''puts'')
           [ArrayLiteral [IntegerLiteral 1, IfExpression (BooleanLiteral True) [] None]])
      (snd New_Interpreter)) = Some (Inl NilDereference)
   \<and> result_object (Eval hk 5 0
        (CallExpression (Identifier ''puts'')
           [IfExpression (BooleanLiteral True) [ReturnStatement NoNode] None])
      (snd New_Interpreter)) = Some (Inl NilDereference)"
  by (simp add: run_defs applyBuiltin_def array_123_def)

subsection \<open>The shared \<open>Boolean\<close> and \<open>Null\<close> objects\<close>

lemma extends_refl [simp]: "extends h h"
  by (simp add: extends_def)

lemma extends_trans: "extends h h1 \<Longrightarrow> extends h1 h2 \<Longrightarrow> extends h h2"
  by (auto simp: extends_def)

lemma extends_objects: "objects h' = objects h \<Longrightarrow> extends h h'"
  by (simp add: extends_def)

lemma extends_alloc: "\<not> singleton_kind ob \<Longrightarrow> alloc ob h = (v, h') \<Longrightarrow> extends h h'"
  by (auto simp: extends_def alloc_def)

lemma extends_newError: "newError m h = (v, h') \<Longrightarrow> extends h h'"
  unfolding newError_def by (rule extends_alloc) (simp_all add: singleton_kind_def)

lemma extends_update [simp]:
  "extends h (h\<lparr>objects := objects h @ [ob]\<rparr>) \<longleftrightarrow> \<not> singleton_kind ob"
  by (auto simp: extends_def)

lemmas alloc_defs = alloc_def newError_def singleton_kind_def

lemma withType_Inr: "withType h obj f = Inr x \<Longrightarrow> \<exists>t. ObjectType h obj = Inr t \<and> f t = Inr x"
  by (auto simp: withType_def split: sum.splits)

lemma extends_Set: "Set e name val h = Inr (v, h') \<Longrightarrow> extends h h'"
  by (auto simp: Set_def extends_def split: if_splits)

lemma extends_extendFunctionEnv_loop:
  "extendFunctionEnv_loop env params i args h = Inr h' \<Longrightarrow> objects h' = objects h"
proof (induction params arbitrary: i h)
  case Nil
  then show ?case by simp
next
  case (Cons p ps)
  then show ?case
    by (auto simp: Set_def split: if_splits sum.splits)
qed

lemma extends_extendFunctionEnv:
  "extendFunctionEnv params fenv args h = Inr (e, h') \<Longrightarrow> extends h h'"
  by (auto simp: extendFunctionEnv_def NewEnvironment_def split: sum.splits
      dest!: extends_extendFunctionEnv_loop intro!: extends_objects)

lemma extends_evalMinus:
  "evalMinusPrefixOperatorExpression right h = Inr (v, h') \<Longrightarrow> extends h h'"
  by (auto simp: evalMinusPrefixOperatorExpression_def alloc_defs
      dest!: withType_Inr split: if_splits option.splits object.splits)

lemma extends_evalPrefixExpression:
  "evalPrefixExpression operator right h = Inr (v, h') \<Longrightarrow> extends h h'"
  by (auto simp: evalPrefixExpression_def dest!: withType_Inr split: if_splits
      elim: extends_newError extends_evalMinus)

lemma extends_evalIntegerInfixExpression:
  "evalIntegerInfixExpression operator left right h = Inr (v, h') \<Longrightarrow> extends h h'"
  by (auto simp: evalIntegerInfixExpression_def alloc_defs
      dest!: withType_Inr split: if_splits option.splits object.splits)

lemma extends_evalStringInfixExpression:
  "evalStringInfixExpression left right h = Inr (v, h') \<Longrightarrow> extends h h'"
  by (auto simp: evalStringInfixExpression_def alloc_defs
      dest!: withType_Inr split: if_splits option.splits object.splits)

lemma extends_evalInfixExpression:
  "evalInfixExpression operator left right h = Inr (v, h') \<Longrightarrow> extends h h'"
  apply (auto simp: evalInfixExpression_def alloc_defs dest!: withType_Inr
      split: if_splits sum.splits bool.splits)
       apply (erule extends_evalIntegerInfixExpression | erule extends_evalStringInfixExpression)+
  done

lemma extends_internal_evalInfixExpression:
  "internal_evalInfixExpression operator left right h = Inr (v, h') \<Longrightarrow> extends h h'"
  apply (auto simp: internal_evalInfixExpression_def alloc_defs dest!: withType_Inr
      split: if_splits sum.splits bool.splits)
    apply (erule extends_evalIntegerInfixExpression)+
  done

lemma extends_evalIndexExpression:
  "evalIndexExpression hk left index h = Inr (v, h') \<Longrightarrow> extends h h'"
  by (auto simp: evalIndexExpression_def evalArrayIndexExpression_def evalHashIndexExpression_def
      alloc_defs dest!: withType_Inr split: if_splits option.splits object.splits)

lemma extends_puts_loop: "puts_loop args h = Inr (v, h') \<Longrightarrow> h' = h"
  by (induction args) (auto split: option.splits)

lemma extends_argArray:
  "argArray name args h f = Inr (v, h') \<Longrightarrow>
   (\<And>elements. f elements = Inr (v, h') \<Longrightarrow> extends h h') \<Longrightarrow> extends h h'"
  by (auto simp: argArray_def alloc_defs dest!: withType_Inr
      split: if_splits option.splits object.splits)

lemma extends_applyBuiltin:
  "applyBuiltin f args h = Inr (v, h') \<Longrightarrow> extends h h'"
proof (cases f)
  case Builtin_len
  assume "applyBuiltin f args h = Inr (v, h')"
  then show ?thesis using Builtin_len
    by (auto simp: applyBuiltin_def wrongNumberOfArguments_def alloc_defs
      dest!: withType_Inr split: if_splits option.splits object.splits)
next
  case Builtin_first
  assume "applyBuiltin f args h = Inr (v, h')"
  then show ?thesis using Builtin_first
    by (auto simp: applyBuiltin_def wrongNumberOfArguments_def alloc_defs split: if_splits
        elim!: extends_argArray)
next
  case Builtin_last
  assume "applyBuiltin f args h = Inr (v, h')"
  then show ?thesis using Builtin_last
    by (auto simp: applyBuiltin_def wrongNumberOfArguments_def alloc_defs split: if_splits
        elim!: extends_argArray)
next
  case Builtin_rest
  assume "applyBuiltin f args h = Inr (v, h')"
  then show ?thesis using Builtin_rest
    by (auto simp: applyBuiltin_def wrongNumberOfArguments_def alloc_defs split: if_splits
        elim!: extends_argArray)
next
  case Builtin_push
  assume "applyBuiltin f args h = Inr (v, h')"
  then show ?thesis using Builtin_push
    by (auto simp: applyBuiltin_def wrongNumberOfArguments_def alloc_defs split: if_splits
        elim!: extends_argArray)
next
  case Builtin_puts
  assume "applyBuiltin f args h = Inr (v, h')"
  then show ?thesis using Builtin_puts
    by (auto simp: applyBuiltin_def dest!: extends_puts_loop)
qed


lemma andThen_Inr_D:
  "andThen m f = Some (Inr x) \<Longrightarrow> \<exists>v h. m = Some (Inr (v, h)) \<and> f v h = Some (Inr x)"
  by (auto simp: andThen_def split: option.splits sum.splits)

lemma extends_evalIdentifier:
  "evalIdentifier env name h = Some (Inr (v, h')) \<Longrightarrow> extends h h'"
  by (auto simp: evalIdentifier_def alloc_defs split: option.splits bool.splits prod.splits)

lemma extends_internal_evalIdentifier:
  "internal_evalIdentifier env name h = Some (Inr (v, h')) \<Longrightarrow> extends h h'"
  by (auto simp: internal_evalIdentifier_def alloc_defs
      split: option.splits bool.splits prod.splits)

lemma extends_evalProgram:
  assumes ev: "\<And>node h v h'. ev node h = Some (Inr (v, h')) \<Longrightarrow> extends h h'"
  shows "evalProgram ev stmts r0 h = Some (Inr (v, h')) \<Longrightarrow> extends h h'"
proof (induction stmts arbitrary: r0 h)
  case Nil
  then show ?case by simp
next
  case (Cons s ss)
  from andThen_Inr_D[OF Cons.prems[unfolded evalProgram.simps]] obtain r h1 where
    e: "ev s h = Some (Inr (r, h1))"
    and rest: "(case (case r of None \<Rightarrow> None | Some a \<Rightarrow> deref h1 a) of
         Some (ReturnValue v) \<Rightarrow> Some (Inr (v, h1))
       | Some (Error m) \<Rightarrow> Some (Inr (r, h1))
       | _ \<Rightarrow> evalProgram ev ss r h1) = Some (Inr (v, h'))" by blast
  have "extends h1 h'"
    using rest Cons.IH by (auto split: option.splits object.splits)
  with ev[OF e] show ?case by (rule extends_trans)
qed

lemma extends_evalBlockStatement:
  assumes ev: "\<And>node h v h'. ev node h = Some (Inr (v, h')) \<Longrightarrow> extends h h'"
  shows "evalBlockStatement ev stmts r0 h = Some (Inr (v, h')) \<Longrightarrow> extends h h'"
proof (induction stmts arbitrary: r0 h)
  case Nil
  then show ?case by simp
next
  case (Cons s ss)
  from andThen_Inr_D[OF Cons.prems[unfolded evalBlockStatement.simps]] obtain r h1 where
    e: "ev s h = Some (Inr (r, h1))"
    and rest: "(if r \<noteq> None then
         (case ObjectType h1 r of
            Inl p \<Rightarrow> Some (Inl p)
          | Inr rt \<Rightarrow>
              if rt = ''RETURN_VALUE'' \<or> rt = ''ERROR'' then Some (Inr (r, h1))
              else evalBlockStatement ev ss r h1)
       else evalBlockStatement ev ss r h1) = Some (Inr (v, h'))" by blast
  have "extends h1 h'"
    using rest Cons.IH by (auto split: if_splits sum.splits)
  with ev[OF e] show ?case by (rule extends_trans)
qed

lemma extends_evalExpressions:
  assumes ev: "\<And>node h v h'. ev node h = Some (Inr (v, h')) \<Longrightarrow> extends h h'"
  shows "evalExpressions ev exps acc h = Some (Inr (vs, h')) \<Longrightarrow> extends h h'"
proof (induction exps arbitrary: acc h)
  case Nil
  then show ?case by simp
next
  case (Cons x xs)
  from andThen_Inr_D[OF Cons.prems[unfolded evalExpressions.simps]] obtain r h1 where
    e: "ev x h = Some (Inr (r, h1))"
    and rest: "(if isError h1 r then Some (Inr ([r], h1))
       else evalExpressions ev xs (acc @ [r]) h1) = Some (Inr (vs, h'))" by blast
  have "extends h1 h'"
    using rest Cons.IH by (auto split: if_splits)
  with ev[OF e] show ?case by (rule extends_trans)
qed

lemma extends_evalHashLiteral:
  assumes ev: "\<And>node h v h'. ev node h = Some (Inr (v, h')) \<Longrightarrow> extends h h'"
  shows "evalHashLiteral hk ev ps pairs h = Some (Inr (v, h')) \<Longrightarrow> extends h h'"
proof (induction ps arbitrary: pairs h)
  case Nil
  then show ?case by (auto simp: alloc_defs)
next
  case (Cons p ps)
  obtain keyNode valueNode where p: "p = (keyNode, valueNode)" by (cases p)
  from andThen_Inr_D[OF Cons.prems[unfolded p evalHashLiteral.simps]] obtain key h1 where
    e: "ev keyNode h = Some (Inr (key, h1))"
    and rest: "(if isError h1 key then Some (Inr (key, h1))
       else (case asHashable hk h1 key of
               None \<Rightarrow> Some (withType h1 key (\<lambda>t.
                          Inr (newError (''unusable as hash key: '' @ t) h1)))
             | Some hashed \<Rightarrow>
                 andThen (ev valueNode h1) (\<lambda>val h.
                   if isError h val then Some (Inr (val, h))
                   else evalHashLiteral hk ev ps (AList.update hashed (key, val) pairs) h)))
        = Some (Inr (v, h'))" by blast
  have "extends h1 h'"
  proof (cases "isError h1 key")
    case True
    then show ?thesis using rest by simp
  next
    case False
    show ?thesis
    proof (cases "asHashable hk h1 key")
      case None
      then show ?thesis using rest False
        by (auto simp: alloc_defs dest!: withType_Inr)
    next
      case (Some hashed)
      with rest False have "andThen (ev valueNode h1) (\<lambda>val h.
                   if isError h val then Some (Inr (val, h))
                   else evalHashLiteral hk ev ps (AList.update hashed (key, val) pairs) h)
            = Some (Inr (v, h'))" by simp
      from andThen_Inr_D[OF this] obtain val h2 where
        e2: "ev valueNode h1 = Some (Inr (val, h2))"
        and rest2: "(if isError h2 val then Some (Inr (val, h2))
                   else evalHashLiteral hk ev ps (AList.update hashed (key, val) pairs) h2)
            = Some (Inr (v, h'))" by blast
      have "extends h2 h'" using rest2 Cons.IH by (auto split: if_splits)
      with ev[OF e2] show ?thesis by (rule extends_trans)
    qed
  qed
  with ev[OF e] show ?case by (rule extends_trans)
qed

lemma extends_evalIfExpression:
  assumes ev: "\<And>node h v h'. ev node h = Some (Inr (v, h')) \<Longrightarrow> extends h h'"
  shows "evalIfExpression ev c cons alt h = Some (Inr (v, h')) \<Longrightarrow> extends h h'"
proof -
  assume a: "evalIfExpression ev c cons alt h = Some (Inr (v, h'))"
  from andThen_Inr_D[OF a[unfolded evalIfExpression_def]] obtain r h1 where
    e: "ev c h = Some (Inr (r, h1))"
    and rest: "(if isError h1 r then Some (Inr (r, h1))
       else if isTruthy r then ev (BlockStatement cons) h1
       else (case alt of
               Some alt \<Rightarrow> ev (BlockStatement alt) h1
             | None \<Rightarrow> Some (Inr (Some NULL, h1)))) = Some (Inr (v, h'))" by blast
  have "extends h1 h'"
    using rest ev by (auto split: if_splits option.splits)
  with ev[OF e] show ?thesis by (rule extends_trans)
qed

lemma extends_applyFunction:
  assumes ev: "\<And>node h v h'. ev node h = Some (Inr (v, h')) \<Longrightarrow> extends h h'"
  shows "applyFunction ev fn args h = Some (Inr (v, h')) \<Longrightarrow> extends h h'"
proof -
  assume a: "applyFunction ev fn args h = Some (Inr (v, h'))"
  show ?thesis
  proof (cases "case fn of None \<Rightarrow> None | Some a \<Rightarrow> deref h a")
    case None
    then show ?thesis using a
      by (auto simp: applyFunction_def alloc_defs dest!: withType_Inr)
  next
    case (Some ob)
    show ?thesis
    proof (cases ob)
      case (Function ps body fenv)
      with a Some obtain e h1 where
        x: "extendFunctionEnv ps fenv args h = Inr (e, h1)"
        and b: "andThen (ev (BlockStatement body) h1) (\<lambda>evaluated h.
                 Some (Inr (unwrapReturnValue h evaluated, h))) = Some (Inr (v, h'))"
        by (auto simp: applyFunction_def split: sum.splits)
      from andThen_Inr_D[OF b] obtain r h2 where
        e2: "ev (BlockStatement body) h1 = Some (Inr (r, h2))" and "h' = h2" by auto
      with extends_extendFunctionEnv[OF x] ev[OF e2] show ?thesis
        by (auto intro: extends_trans)
    next
      case (Builtin f)
      then show ?thesis using a Some
        by (auto simp: applyFunction_def dest: extends_applyBuiltin)
    qed (use a Some in \<open>auto simp: applyFunction_def alloc_defs dest!: withType_Inr\<close>)
  qed
qed

lemma extends_internal_applyFunction:
  assumes ev: "\<And>env node h v h'. ev env node h = Some (Inr (v, h')) \<Longrightarrow> extends h h'"
  shows "internal_applyFunction ev fn args h = Some (Inr (v, h')) \<Longrightarrow> extends h h'"
proof -
  assume a: "internal_applyFunction ev fn args h = Some (Inr (v, h'))"
  show ?thesis
  proof (cases "case fn of None \<Rightarrow> None | Some a \<Rightarrow> deref h a")
    case None
    then show ?thesis using a
      by (auto simp: internal_applyFunction_def alloc_defs dest!: withType_Inr)
  next
    case (Some ob)
    show ?thesis
    proof (cases ob)
      case (Function ps body fenv)
      with a Some obtain e h1 where
        x: "extendFunctionEnv ps fenv args h = Inr (e, h1)"
        and b: "andThen (ev e (BlockStatement body) h1) (\<lambda>evaluated h.
                 Some (Inr (unwrapReturnValue h evaluated, h))) = Some (Inr (v, h'))"
        by (auto simp: internal_applyFunction_def split: sum.splits)
      from andThen_Inr_D[OF b] obtain r h2 where
        e2: "ev e (BlockStatement body) h1 = Some (Inr (r, h2))" and "h' = h2" by auto
      with extends_extendFunctionEnv[OF x] ev[OF e2] show ?thesis
        by (auto intro: extends_trans)
    next
      case (Builtin f)
      then show ?thesis using a Some
        by (auto simp: internal_applyFunction_def dest: extends_applyBuiltin)
    qed (use a Some in \<open>auto simp: internal_applyFunction_def alloc_defs dest!: withType_Inr\<close>)
  qed
qed



lemma extends_Eval:
  "Eval hk n env node h = Some (Inr (v, h')) \<Longrightarrow> extends h h'"
proof (induction n arbitrary: env node h v h')
  case 0
  then show ?case by simp
next
  case (Suc n)
  note IH = Suc.IH
  note p = Suc.prems
  show ?case
  proof (cases node)
    case (Program stmts)
    with p show ?thesis by (auto elim: extends_evalProgram[rotated] IH)
  next
    case (ExpressionStatement x)
    with p show ?thesis by (auto elim: IH)
  next
    case (IntegerLiteral x)
    with p show ?thesis by (auto simp: alloc_defs)
  next
    case (StringLiteral x)
    with p show ?thesis by (auto simp: alloc_defs)
  next
    case (BooleanLiteral x)
    with p show ?thesis by auto
  next
    case (PrefixExpression operator right)
    with p have "andThen (Eval hk n env right h) (\<lambda>right h.
            if isError h right then Some (Inr (right, h))
            else Some (evalPrefixExpression operator right h)) = Some (Inr (v, h'))" by simp
    from andThen_Inr_D[OF this] obtain r h1 where
      e: "Eval hk n env right h = Some (Inr (r, h1))"
      and rest: "(if isError h1 r then Some (Inr (r, h1))
            else Some (evalPrefixExpression operator r h1)) = Some (Inr (v, h'))" by blast
    have "extends h1 h'" using rest
      by (auto split: if_splits elim: extends_evalPrefixExpression)
    with IH[OF e] show ?thesis by (rule extends_trans)
  next
    case (InfixExpression left operator right)
    with p have "andThen (Eval hk n env left h) (\<lambda>left h.
            if isError h left then Some (Inr (left, h))
            else andThen (Eval hk n env right h) (\<lambda>right h.
              if isError h right then Some (Inr (right, h))
              else Some (evalInfixExpression operator left right h))) = Some (Inr (v, h'))"
      by simp
    from andThen_Inr_D[OF this] obtain l h1 where
      e: "Eval hk n env left h = Some (Inr (l, h1))"
      and rest: "(if isError h1 l then Some (Inr (l, h1))
            else andThen (Eval hk n env right h1) (\<lambda>right h.
              if isError h right then Some (Inr (right, h))
              else Some (evalInfixExpression operator l right h))) = Some (Inr (v, h'))"
      by blast
    have "extends h1 h'"
    proof (cases "isError h1 l")
      case True
      then show ?thesis using rest by simp
    next
      case False
      with rest have "andThen (Eval hk n env right h1) (\<lambda>right h.
              if isError h right then Some (Inr (right, h))
              else Some (evalInfixExpression operator l right h)) = Some (Inr (v, h'))" by simp
      from andThen_Inr_D[OF this] obtain r h2 where
        e2: "Eval hk n env right h1 = Some (Inr (r, h2))"
        and rest2: "(if isError h2 r then Some (Inr (r, h2))
              else Some (evalInfixExpression operator l r h2)) = Some (Inr (v, h'))" by blast
      have "extends h2 h'" using rest2
        by (auto split: if_splits elim: extends_evalInfixExpression)
      with IH[OF e2] show ?thesis by (rule extends_trans)
    qed
    with IH[OF e] show ?thesis by (rule extends_trans)
  next
    case (BlockStatement stmts)
    with p show ?thesis by (auto elim: extends_evalBlockStatement[rotated] IH)
  next
    case (IfExpression c cons alt)
    with p show ?thesis by (auto elim: extends_evalIfExpression[rotated] IH)
  next
    case (ReturnStatement x)
    with p have "andThen (Eval hk n env x h) (\<lambda>val h.
            if isError h val then Some (Inr (val, h))
            else Some (Inr (alloc (ReturnValue val) h))) = Some (Inr (v, h'))" by simp
    from andThen_Inr_D[OF this] obtain r h1 where
      e: "Eval hk n env x h = Some (Inr (r, h1))"
      and rest: "(if isError h1 r then Some (Inr (r, h1))
            else Some (Inr (alloc (ReturnValue r) h1))) = (Some (Inr (v, h')) :: Object result)"
      by blast
    have "extends h1 h'" using rest
      by (auto simp: alloc_defs split: if_splits)
    with IH[OF e] show ?thesis by (rule extends_trans)
  next
    case (LetStatement name x)
    with p have "andThen (Eval hk n env x h) (\<lambda>val h.
            if isError h val then Some (Inr (val, h))
            else (case Set env name val h of
                    Inl p \<Rightarrow> Some (Inl p)
                  | Inr (_, h') \<Rightarrow> Some (Inr (None, h')))) = Some (Inr (v, h'))" by simp
    from andThen_Inr_D[OF this] obtain r h1 where
      e: "Eval hk n env x h = Some (Inr (r, h1))"
      and rest: "(if isError h1 r then Some (Inr (r, h1))
            else (case Set env name r h1 of
                    Inl p \<Rightarrow> Some (Inl p)
                  | Inr (_, h') \<Rightarrow> Some (Inr (None, h')))) = Some (Inr (v, h'))" by blast
    have "extends h1 h'" using rest
      by (auto split: if_splits sum.splits elim: extends_Set)
    with IH[OF e] show ?thesis by (rule extends_trans)
  next
    case (Identifier name)
    with p show ?thesis by (auto elim: extends_evalIdentifier)
  next
    case (FunctionLiteral ps body)
    with p show ?thesis by (auto simp: alloc_defs)
  next
    case (CallExpression f arguments)
    with p have "andThen (Eval hk n env f h) (\<lambda>function h.
            if isError h function then Some (Inr (function, h))
            else andThen (evalExpressions (Eval hk n env) arguments [] h) (\<lambda>args h.
              if length args = 1 \<and> isError h (args ! 0) then Some (Inr (args ! 0, h))
              else applyFunction (Eval hk n env) function args h)) = Some (Inr (v, h'))"
      by simp
    from andThen_Inr_D[OF this] obtain fn h1 where
      e: "Eval hk n env f h = Some (Inr (fn, h1))"
      and rest: "(if isError h1 fn then Some (Inr (fn, h1))
            else andThen (evalExpressions (Eval hk n env) arguments [] h1) (\<lambda>args h.
              if length args = 1 \<and> isError h (args ! 0) then Some (Inr (args ! 0, h))
              else applyFunction (Eval hk n env) fn args h)) = Some (Inr (v, h'))" by blast
    have "extends h1 h'"
    proof (cases "isError h1 fn")
      case True
      then show ?thesis using rest by simp
    next
      case False
      with rest have "andThen (evalExpressions (Eval hk n env) arguments [] h1) (\<lambda>args h.
              if length args = 1 \<and> isError h (args ! 0) then Some (Inr (args ! 0, h))
              else applyFunction (Eval hk n env) fn args h) = Some (Inr (v, h'))" by simp
      from andThen_Inr_D[OF this] obtain args h2 where
        e2: "evalExpressions (Eval hk n env) arguments [] h1 = Some (Inr (args, h2))"
        and rest2: "(if length args = 1 \<and> isError h2 (args ! 0) then Some (Inr (args ! 0, h2))
              else applyFunction (Eval hk n env) fn args h2) = Some (Inr (v, h'))" by blast
      have "extends h2 h'" using rest2
        by (auto split: if_splits elim: extends_applyFunction[rotated] IH)
      with extends_evalExpressions[OF IH e2] show ?thesis by (rule extends_trans)
    qed
    with IH[OF e] show ?thesis by (rule extends_trans)
  next
    case (ArrayLiteral elems)
    with p have "andThen (evalExpressions (Eval hk n env) elems [] h) (\<lambda>elements h.
            if length elements = 1 \<and> isError h (elements ! 0) then Some (Inr (elements ! 0, h))
            else Some (Inr (alloc (Array elements) h))) = Some (Inr (v, h'))" by simp
    from andThen_Inr_D[OF this] obtain es h1 where
      e: "evalExpressions (Eval hk n env) elems [] h = Some (Inr (es, h1))"
      and rest: "(if length es = 1 \<and> isError h1 (es ! 0) then Some (Inr (es ! 0, h1))
            else Some (Inr (alloc (Array es) h1))) = (Some (Inr (v, h')) :: Object result)"
      by blast
    have "extends h1 h'" using rest
      by (auto simp: alloc_defs split: if_splits)
    with extends_evalExpressions[OF IH e] show ?thesis by (rule extends_trans)
  next
    case (IndexExpression left index)
    with p have "andThen (Eval hk n env left h) (\<lambda>left h.
            if isError h left then Some (Inr (left, h))
            else andThen (Eval hk n env index h) (\<lambda>index h.
              if isError h index then Some (Inr (index, h))
              else Some (evalIndexExpression hk left index h))) = Some (Inr (v, h'))"
      by simp
    from andThen_Inr_D[OF this] obtain l h1 where
      e: "Eval hk n env left h = Some (Inr (l, h1))"
      and rest: "(if isError h1 l then Some (Inr (l, h1))
            else andThen (Eval hk n env index h1) (\<lambda>index h.
              if isError h index then Some (Inr (index, h))
              else Some (evalIndexExpression hk l index h))) = Some (Inr (v, h'))"
      by blast
    have "extends h1 h'"
    proof (cases "isError h1 l")
      case True
      then show ?thesis using rest by simp
    next
      case False
      with rest have "andThen (Eval hk n env index h1) (\<lambda>index h.
              if isError h index then Some (Inr (index, h))
              else Some (evalIndexExpression hk l index h)) = Some (Inr (v, h'))" by simp
      from andThen_Inr_D[OF this] obtain r h2 where
        e2: "Eval hk n env index h1 = Some (Inr (r, h2))"
        and rest2: "(if isError h2 r then Some (Inr (r, h2))
              else Some (evalIndexExpression hk l r h2)) = Some (Inr (v, h'))" by blast
      have "extends h2 h'" using rest2
        by (auto split: if_splits elim: extends_evalIndexExpression)
      with IH[OF e2] show ?thesis by (rule extends_trans)
    qed
    with IH[OF e] show ?thesis by (rule extends_trans)
  next
    case (HashLiteral pairs)
    with p show ?thesis by (auto elim: extends_evalHashLiteral[rotated] IH)
  next
    case (WhileStatement c body)
    with p show ?thesis by auto
  next
    case NoNode
    with p show ?thesis by auto
  qed
qed


lemma extends_internal_Eval:
  "internal_Eval n env node h = Some (Inr (v, h')) \<Longrightarrow> extends h h'"
proof (induction n arbitrary: env node h v h')
  case 0
  then show ?case by simp
next
  case (Suc n)
  note IH = Suc.IH
  note p = Suc.prems
  show ?case
  proof (cases node)
    case (Program stmts)
    with p show ?thesis by (auto elim: extends_evalProgram[rotated] IH)
  next
    case (ExpressionStatement x)
    with p show ?thesis by (auto elim: IH)
  next
    case (IntegerLiteral x)
    with p show ?thesis by (auto simp: alloc_defs)
  next
    case (StringLiteral x)
    with p show ?thesis by auto
  next
    case (BooleanLiteral x)
    with p show ?thesis by auto
  next
    case (PrefixExpression operator right)
    with p have "andThen (internal_Eval n env right h) (\<lambda>right h.
            if isError h right then Some (Inr (right, h))
            else Some (evalPrefixExpression operator right h)) = Some (Inr (v, h'))" by simp
    from andThen_Inr_D[OF this] obtain r h1 where
      e: "internal_Eval n env right h = Some (Inr (r, h1))"
      and rest: "(if isError h1 r then Some (Inr (r, h1))
            else Some (evalPrefixExpression operator r h1)) = Some (Inr (v, h'))" by blast
    have "extends h1 h'" using rest
      by (auto split: if_splits elim: extends_evalPrefixExpression)
    with IH[OF e] show ?thesis by (rule extends_trans)
  next
    case (InfixExpression left operator right)
    with p have "andThen (internal_Eval n env left h) (\<lambda>left h.
            if isError h left then Some (Inr (left, h))
            else andThen (internal_Eval n env right h) (\<lambda>right h.
              if isError h right then Some (Inr (right, h))
              else Some (internal_evalInfixExpression operator left right h))) = Some (Inr (v, h'))"
      by simp
    from andThen_Inr_D[OF this] obtain l h1 where
      e: "internal_Eval n env left h = Some (Inr (l, h1))"
      and rest: "(if isError h1 l then Some (Inr (l, h1))
            else andThen (internal_Eval n env right h1) (\<lambda>right h.
              if isError h right then Some (Inr (right, h))
              else Some (internal_evalInfixExpression operator l right h))) = Some (Inr (v, h'))"
      by blast
    have "extends h1 h'"
    proof (cases "isError h1 l")
      case True
      then show ?thesis using rest by simp
    next
      case False
      with rest have "andThen (internal_Eval n env right h1) (\<lambda>right h.
              if isError h right then Some (Inr (right, h))
              else Some (internal_evalInfixExpression operator l right h)) = Some (Inr (v, h'))" by simp
      from andThen_Inr_D[OF this] obtain r h2 where
        e2: "internal_Eval n env right h1 = Some (Inr (r, h2))"
        and rest2: "(if isError h2 r then Some (Inr (r, h2))
              else Some (internal_evalInfixExpression operator l r h2)) = Some (Inr (v, h'))" by blast
      have "extends h2 h'" using rest2
        by (auto split: if_splits elim: extends_internal_evalInfixExpression)
      with IH[OF e2] show ?thesis by (rule extends_trans)
    qed
    with IH[OF e] show ?thesis by (rule extends_trans)
  next
    case (BlockStatement stmts)
    with p show ?thesis by (auto elim: extends_evalBlockStatement[rotated] IH)
  next
    case (IfExpression c cons alt)
    with p show ?thesis by (auto elim: extends_evalIfExpression[rotated] IH)
  next
    case (ReturnStatement x)
    with p have "andThen (internal_Eval n env x h) (\<lambda>val h.
            if isError h val then Some (Inr (val, h))
            else Some (Inr (alloc (ReturnValue val) h))) = Some (Inr (v, h'))" by simp
    from andThen_Inr_D[OF this] obtain r h1 where
      e: "internal_Eval n env x h = Some (Inr (r, h1))"
      and rest: "(if isError h1 r then Some (Inr (r, h1))
            else Some (Inr (alloc (ReturnValue r) h1))) = (Some (Inr (v, h')) :: Object result)"
      by blast
    have "extends h1 h'" using rest
      by (auto simp: alloc_defs split: if_splits)
    with IH[OF e] show ?thesis by (rule extends_trans)
  next
    case (LetStatement name x)
    with p have "andThen (internal_Eval n env x h) (\<lambda>val h.
            if isError h val then Some (Inr (val, h))
            else Some (Set env name val h)) = Some (Inr (v, h'))" by simp
    from andThen_Inr_D[OF this] obtain r h1 where
      e: "internal_Eval n env x h = Some (Inr (r, h1))"
      and rest: "(if isError h1 r then Some (Inr (r, h1))
            else Some (Set env name r h1)) = Some (Inr (v, h'))" by blast
    have "extends h1 h'" using rest
      by (auto split: if_splits elim: extends_Set)
    with IH[OF e] show ?thesis by (rule extends_trans)
  next
    case (Identifier name)
    with p show ?thesis by (auto elim: extends_internal_evalIdentifier)
  next
    case (FunctionLiteral ps body)
    with p show ?thesis by (auto simp: alloc_defs)
  next
    case (CallExpression f arguments)
    with p have "andThen (internal_Eval n env f h) (\<lambda>function h.
            if isError h function then Some (Inr (function, h))
            else andThen (evalExpressions (internal_Eval n env) arguments [] h) (\<lambda>args h.
              if length args = 1 \<and> isError h (args ! 0) then Some (Inr (args ! 0, h))
              else internal_applyFunction (internal_Eval n) function args h)) = Some (Inr (v, h'))"
      by simp
    from andThen_Inr_D[OF this] obtain fn h1 where
      e: "internal_Eval n env f h = Some (Inr (fn, h1))"
      and rest: "(if isError h1 fn then Some (Inr (fn, h1))
            else andThen (evalExpressions (internal_Eval n env) arguments [] h1) (\<lambda>args h.
              if length args = 1 \<and> isError h (args ! 0) then Some (Inr (args ! 0, h))
              else internal_applyFunction (internal_Eval n) fn args h)) = Some (Inr (v, h'))" by blast
    have "extends h1 h'"
    proof (cases "isError h1 fn")
      case True
      then show ?thesis using rest by simp
    next
      case False
      with rest have "andThen (evalExpressions (internal_Eval n env) arguments [] h1) (\<lambda>args h.
              if length args = 1 \<and> isError h (args ! 0) then Some (Inr (args ! 0, h))
              else internal_applyFunction (internal_Eval n) fn args h) = Some (Inr (v, h'))" by simp
      from andThen_Inr_D[OF this] obtain args h2 where
        e2: "evalExpressions (internal_Eval n env) arguments [] h1 = Some (Inr (args, h2))"
        and rest2: "(if length args = 1 \<and> isError h2 (args ! 0) then Some (Inr (args ! 0, h2))
              else internal_applyFunction (internal_Eval n) fn args h2) = Some (Inr (v, h'))" by blast
      have "extends h2 h'" using rest2
        by (auto split: if_splits elim: extends_internal_applyFunction[rotated] IH)
      with extends_evalExpressions[OF IH e2] show ?thesis by (rule extends_trans)
    qed
    with IH[OF e] show ?thesis by (rule extends_trans)
  next
    case (ArrayLiteral elems)
    with p show ?thesis by auto
  next
    case (IndexExpression left index)
    with p show ?thesis by auto
  next
    case (HashLiteral pairs)
    with p show ?thesis by auto
  next
    case (WhileStatement c body)
    with p show ?thesis by auto
  next
    case NoNode
    with p show ?thesis by auto
  qed
qed



lemma extends_singletons: "extends h h' \<Longrightarrow> singletons h \<Longrightarrow> singletons h'"
proof -
  assume e: "extends h h'" and s: "singletons h"
  from e obtain obs where o: "objects h' = objects h @ obs"
    and ns: "\<And>ob. ob \<in> set obs \<Longrightarrow> \<not> singleton_kind ob"
    by (auto simp: extends_def)
  show ?thesis
    unfolding singletons_def
  proof (intro allI impI)
    fix a assume a: "a < length (objects h')"
    show "(\<forall>b. objects h' ! a = Boolean b \<longrightarrow> a = (if b then TRUE else FALSE))
          \<and> (objects h' ! a = Null \<longrightarrow> a = NULL)"
    proof (cases "a < length (objects h)")
      case True
      then have "objects h' ! a = objects h ! a" by (simp add: o nth_append)
      then show ?thesis using s True by (simp add: singletons_def)
    next
      case False
      then have "objects h' ! a = obs ! (a - length (objects h))"
        by (simp add: o nth_append)
      moreover have "obs ! (a - length (objects h)) \<in> set obs"
        using a False by (simp add: o)
      ultimately have "\<not> singleton_kind (objects h' ! a)" using ns by simp
      then show ?thesis by (auto simp: singleton_kind_def)
    qed
  qed
qed

lemma singletons_New: "singletons (snd New_Interpreter)" "singletons (snd internal_New)"
  by (auto simp: singletons_def New_Interpreter_def internal_New_def NewEnvironment_def
      package_objects_def TRUE_def FALSE_def NULL_def less_Suc_eq numeral_eq_Suc)

lemma singletons_Boolean:
  "singletons h \<Longrightarrow> deref h a = Some (Boolean x) \<Longrightarrow> a = (if x then TRUE else FALSE)"
  by (auto simp: singletons_def deref_def split: if_splits)

lemma singletons_Null: "singletons h \<Longrightarrow> deref h a = Some Null \<Longrightarrow> a = NULL"
  by (auto simp: singletons_def deref_def split: if_splits)

text \<open>
  C10. In a fresh interpreter the only \<open>Boolean\<close> objects are \<open>TRUE\<close> and \<open>FALSE\<close> and
  the only \<open>Null\<close> object is \<open>NULL\<close>, and every evaluation that returns keeps it so, in
  both interpreters: it keeps the objects that were there and allocates no \<open>Boolean\<close>
  and no \<open>Null\<close>. So every boolean is at the address \<open>TRUE\<close> or \<open>FALSE\<close> that its value
  names and every null is at \<open>NULL\<close>, and the comparison of the pointers by \<open>==\<close> and
  \<open>!=\<close> is the comparison of the values of two booleans, and of two nulls.
\<close>

theorem singletons_preserved:
  "singletons (snd New_Interpreter) \<and> singletons (snd internal_New)
   \<and> (singletons h \<and> Eval hk n env node h = Some (Inr (v, h')) \<longrightarrow>
        singletons h' \<and> extends h h')
   \<and> (singletons h \<and> internal_Eval n env node h = Some (Inr (v, h')) \<longrightarrow>
        singletons h' \<and> extends h h')
   \<and> (singletons h \<and> deref h a = Some (Boolean x) \<longrightarrow> a = (if x then TRUE else FALSE))
   \<and> (singletons h \<and> deref h a = Some Null \<longrightarrow> a = NULL)
   \<and> (singletons h \<and> deref h a = Some (Boolean x) \<and> deref h b = Some (Boolean y) \<longrightarrow>
        evalInfixExpression ''=='' (Some a) (Some b) h
          = Inr (nativeBoolToBooleanObject (x = y), h)
        \<and> evalInfixExpression ''!='' (Some a) (Some b) h
            = Inr (nativeBoolToBooleanObject (x \<noteq> y), h))
   \<and> (singletons h \<and> deref h a = Some Null \<and> deref h b = Some Null \<longrightarrow>
        evalInfixExpression ''=='' (Some a) (Some b) h = Inr (Some TRUE, h)
        \<and> evalInfixExpression ''!='' (Some a) (Some b) h = Inr (Some FALSE, h))"
proof -
  have ev: "singletons h' \<and> extends h h'"
    if "singletons h" "Eval hk n env node h = Some (Inr (v, h'))"
    using extends_Eval[OF that(2)] extends_singletons that(1) by blast
  have iev: "singletons h' \<and> extends h h'"
    if "singletons h" "internal_Eval n env node h = Some (Inr (v, h'))"
    using extends_internal_Eval[OF that(2)] extends_singletons that(1) by blast
  have eqb: "evalInfixExpression ''=='' (Some a) (Some b) h
          = Inr (nativeBoolToBooleanObject (x = y), h)
        \<and> evalInfixExpression ''!='' (Some a) (Some b) h
            = Inr (nativeBoolToBooleanObject (x \<noteq> y), h)"
    if "singletons h" "deref h a = Some (Boolean x)" "deref h b = Some (Boolean y)"
    using singletons_Boolean[OF that(1,2)] singletons_Boolean[OF that(1,3)] that(2,3)
    by (auto simp: evalInfixExpression_def withType_def ObjectType_def TRUE_def FALSE_def)
  have eqn: "evalInfixExpression ''=='' (Some a) (Some b) h = Inr (Some TRUE, h)
        \<and> evalInfixExpression ''!='' (Some a) (Some b) h = Inr (Some FALSE, h)"
    if "singletons h" "deref h a = Some Null" "deref h b = Some Null"
    using singletons_Null[OF that(1,2)] singletons_Null[OF that(1,3)] that(2,3)
    by (auto simp: evalInfixExpression_def withType_def ObjectType_def
        nativeBoolToBooleanObject_def)
  show ?thesis
    using singletons_New ev iev eqb eqn singletons_Boolean[of h a x] singletons_Null[of h a]
    by blast
qed

text \<open>
  The hypotheses of C10 in the fresh interpreters, at \<open>true == false\<close>, at the comparison
  of \<open>NULL\<close> with itself, and at \<open>true\<close> in the first interpreter.
\<close>

theorem singletons_preserved_witness:
  "Eval example_HashKey 2 0 (InfixExpression (BooleanLiteral True) ''=='' (BooleanLiteral False))
       (snd New_Interpreter) = Some (Inr (Some FALSE, snd New_Interpreter))
   \<and> deref (snd New_Interpreter) TRUE = Some (Boolean True)
   \<and> deref (snd New_Interpreter) FALSE = Some (Boolean False)
   \<and> deref (snd New_Interpreter) NULL = Some Null
   \<and> evalInfixExpression ''=='' (Some TRUE) (Some FALSE) (snd New_Interpreter)
        = Inr (Some FALSE, snd New_Interpreter)
   \<and> evalInfixExpression ''=='' (Some NULL) (Some NULL) (snd New_Interpreter)
        = Inr (Some TRUE, snd New_Interpreter)
   \<and> internal_Eval 1 0 (BooleanLiteral True) (snd internal_New)
        = Some (Inr (Some TRUE, snd internal_New))"
proof -
  have e: "Eval example_HashKey 2 0
       (InfixExpression (BooleanLiteral True) ''=='' (BooleanLiteral False))
       (snd New_Interpreter) = Some (Inr (Some FALSE, snd New_Interpreter))"
    by (simp add: run_defs)
  have ie: "internal_Eval 1 0 (BooleanLiteral True) (snd internal_New)
        = Some (Inr (Some TRUE, snd internal_New))"
    by (simp add: run_defs)
  have d: "deref (snd New_Interpreter) TRUE = Some (Boolean True)"
    "deref (snd New_Interpreter) FALSE = Some (Boolean False)"
    "deref (snd New_Interpreter) NULL = Some Null"
    by (simp_all add: run_defs)
  from singletons_preserved[where h="snd New_Interpreter" and hk=example_HashKey and n=2
        and env=0 and node="InfixExpression (BooleanLiteral True) ''=='' (BooleanLiteral False)"
        and v="Some FALSE" and h'="snd New_Interpreter" and a=TRUE and x=True and b=FALSE
        and y=False]
       singletons_preserved[where h="snd New_Interpreter" and a=NULL and b=NULL]
       singletons_preserved[where h="snd internal_New" and n=1 and env=0
        and node="BooleanLiteral True" and v="Some TRUE" and h'="snd internal_New"]
       e ie d
  show ?thesis by (simp add: nativeBoolToBooleanObject_def)
qed


end
